theory Spec2Isabelle
  imports Complex_Main "HOL-Library.AList"
begin

section \<open>JavaScript values, objects and strings\<close>

text \<open>
  The analysis results of the pipeline are plain JavaScript objects whose keys come partly
  from the code and partly from the JSON answer of the external classifier.  They are
  modelled as association lists from property names to values, in insertion order.
  A \<open>Date\<close> is the number of milliseconds since the epoch.  A \<open>char\<close> stands for one
  UTF-16 code unit in the range 0..255, so \<open>length\<close> is the \<open>.length\<close> of the source.
\<close>

datatype jsval =
    JUndefined
  | JNull
  | JBool bool
  | JNum real
  | JStr string
  | JDate int
  | JArr "jsval list"
  | JObj "(string \<times> jsval) list"

type_synonym jsobj = "(string \<times> jsval) list"

text \<open>Property read \<open>obj.key\<close>: a missing key reads as \<open>undefined\<close>.\<close>

definition get :: "jsobj \<Rightarrow> string \<Rightarrow> jsval" where
  "get obj k = (case map_of obj k of None \<Rightarrow> JUndefined | Some v \<Rightarrow> v)"

text \<open>Truthiness, as used by \<open>!v\<close>, \<open>a || b\<close>, \<open>a && b\<close> and \<open>filter\<close>.\<close>

fun truthy :: "jsval \<Rightarrow> bool" where
  "truthy JUndefined = False"
| "truthy JNull = False"
| "truthy (JBool b) = b"
| "truthy (JNum x) = (x \<noteq> 0)"
| "truthy (JStr s) = (s \<noteq> [])"
| "truthy (JDate t) = True"
| "truthy (JArr xs) = True"
| "truthy (JObj kvs) = True"

definition js_or :: "jsval \<Rightarrow> jsval \<Rightarrow> jsval" where
  "js_or a b = (if truthy a then a else b)"

text \<open>
  Object spread \<open>{...a, k1: v1, ..., kn: vn}\<close>: the properties of \<open>a\<close>, each later key
  overwriting an earlier one in place or being appended.
\<close>

definition spread :: "jsobj \<Rightarrow> jsobj \<Rightarrow> jsobj" where
  "spread a b = fold (\<lambda>(k, v). AList.update k v) b a"

text \<open>
  \<open>String.prototype.trim\<close> removes white space and line terminators from both ends.  These
  are the code units of ECMAScript's WhiteSpace and LineTerminator productions below 256:
  TAB, LF, VT, FF, CR, SP and NBSP.
\<close>

definition isWhiteSpace :: "char \<Rightarrow> bool" where
  "isWhiteSpace c = (c \<in> {CHR 0x09, CHR 0x0A, CHR 0x0B, CHR 0x0C, CHR 0x0D, CHR 0x20, CHR 0xA0})"

definition trim :: "string \<Rightarrow> string" where
  "trim s = rev (dropWhile isWhiteSpace (rev (dropWhile isWhiteSpace s)))"

text \<open>An \<open>Error\<close> object: \<open>error.message\<close>, \<open>error.code\<close> and \<open>error.status\<close>.\<close>

record js_error =
  message :: string
  code :: "string option"
  status :: "nat option"

section \<open>AIAnalyzer: one conversation\<close>

text \<open>
  The external classifier is a parameter: for the user prompt of a request it gives the
  time the request took and either the parsed JSON object of the answer or the error with
  which the \<open>try\<close> block of \<open>analyzeSalesConversation\<close> was left (a rejected
  \<open>chat.completions.create\<close>, or \<open>JSON.parse\<close> throwing on a malformed answer).
\<close>

record ai_reply =
  elapsedMs :: nat
  outcome :: "js_error + jsobj"

type_synonym ai_service = "string \<Rightarrow> ai_reply"

definition getEmptyAnalysis :: "string \<Rightarrow> jsobj" where
  "getEmptyAnalysis remoteJid =
    [(''remoteJid'', JStr remoteJid),
     (''product_category'', JStr ''No Product Mentioned''),
     (''specific_products'', JArr []),
     (''product_models'', JArr []),
     (''quantity_mentioned'', JNull),
     (''primary_sales_agent'', JNull),
     (''additional_agents'', JArr []),
     (''agent_handoff_detected'', JBool False),
     (''lead_stage'', JStr ''Inquiry''),
     (''next_action_required'', JStr ''Initial contact or follow-up needed''),
     (''sales_status'', JStr ''No meaningful conversation detected''),
     (''customer_objections'', JArr []),
     (''urgency_level'', JStr ''Low''),
     (''customer_name'', JNull),
     (''customer_location'', JNull),
     (''budget_range'', JNull),
     (''purchase_timeline'', JNull),
     (''decision_maker_status'', JNull),
     (''product_specifications'', JNull),
     (''accessories_discussed'', JArr []),
     (''warranty_service_needs'', JNull),
     (''color_preferences'', JArr []),
     (''lead_source'', JNull),
     (''competitive_products'', JArr []),
     (''upsell_opportunities'', JArr []),
     (''customer_sentiment'', JStr ''Neutral''),
     (''pain_points_identified'', JArr []),
     (''pricing_discussed'', JBool False),
     (''demo_scheduled'', JBool False),
     (''follow_up_required'', JBool True),
     (''analysisConfidence'', JNum 0.3)]"

definition buildAnalysisPrompt :: "string \<Rightarrow> string" where
  "buildAnalysisPrompt conversation =
    ''Please analyze this WhatsApp sales conversation and extract all relevant sales intelligence:''
    @ [CHR 0x0A, CHR 0x0A] @ ''CONVERSATION:'' @ [CHR 0x0A] @ conversation @ [CHR 0x0A, CHR 0x0A]
    @ ''Extract comprehensive sales data including product categories, sales agent information, ''
    @ ''customer intelligence, sales process status, and business insights. Return the analysis ''
    @ ''as a JSON object following the exact schema provided in the system message.''"

text \<open>\<open>process.env.OPENAI_MODEL || 'gpt-3.5-turbo'\<close>; an unset variable is \<open>None\<close>.\<close>

definition modelUsed :: "string option \<Rightarrow> string" where
  "modelUsed OPENAI_MODEL =
    (case OPENAI_MODEL of None \<Rightarrow> ''gpt-3.5-turbo''
     | Some m \<Rightarrow> if m = [] then ''gpt-3.5-turbo'' else m)"

text \<open>
  \<open>analyzeSalesConversation\<close> returns what the promise settles to (\<open>Inl\<close> would be a
  rejection) together with the user prompts of the requests it sent to the classifier.
  \<open>conversation\<close> is \<open>None\<close> for \<open>null\<close> or \<open>undefined\<close>.
\<close>

definition analyzeSalesConversation ::
  "string option \<Rightarrow> ai_service \<Rightarrow> string option \<Rightarrow> string \<Rightarrow> (js_error + jsobj) \<times> string list" where
  "analyzeSalesConversation OPENAI_MODEL openai conversation remoteJid =
    (case conversation of
       None \<Rightarrow> (Inr (getEmptyAnalysis remoteJid), [])
     | Some text \<Rightarrow>
         if text = [] \<or> trim text = [] then (Inr (getEmptyAnalysis remoteJid), [])
         else
           let analysisPrompt = buildAnalysisPrompt text;
               response = openai analysisPrompt
           in (case outcome response of
                 Inr analysis \<Rightarrow>
                   (Inr (spread analysis
                      [(''remoteJid'', JStr remoteJid),
                       (''analysisConfidence'',
                          js_or (get analysis ''analysis_confidence'') (JNum 0.8)),
                       (''aiModelUsed'', JStr (modelUsed OPENAI_MODEL)),
                       (''processingTimeMs'', JNum (real (elapsedMs response)))]),
                    [analysisPrompt])
               | Inl err \<Rightarrow>
                   (Inr (spread (getEmptyAnalysis remoteJid)
                      [(''analysisConfidence'', JNum 0.1),
                       (''aiModelUsed'', JStr ''error''),
                       (''processingTimeMs'', JNum (real (elapsedMs response))),
                       (''error'', JStr (message err))]),
                    [analysisPrompt])))"

section \<open>DatabaseService: preparing and bulk-inserting analysis results\<close>

text \<open>
  The helpers of \<open>prepareInsertValues\<close>.  \<open>maxLength - 3\<close> is a subtraction of naturals:
  \<open>substring\<close> treats a negative end as 0.
\<close>

definition toBoolean :: "jsval \<Rightarrow> jsval" where
  "toBoolean v = JBool (v = JBool True \<or> v = JStr ''true'')"

definition truncateString :: "jsval \<Rightarrow> nat \<Rightarrow> jsval" where
  "truncateString v maxLength =
    (case v of
       JStr s \<Rightarrow>
         if s = [] then v
         else if length s > maxLength then JStr (take (maxLength - 3) s @ ''...'') else v
     | _ \<Rightarrow> v)"

text \<open>\<open>result.metadata?.key\<close>\<close>

definition metadataField :: "jsobj \<Rightarrow> string \<Rightarrow> jsval" where
  "metadataField result k = (case get result ''metadata'' of JObj m \<Rightarrow> get m k | _ \<Rightarrow> JUndefined)"

text \<open>
  \<open>prepareInsertValues\<close> returns the 37 parameters of the INSERT statement by position.
  The model names each value by its column and keeps the text, boolean and timestamp
  columns ($1, $3, $7, $9--$12, $14--$19, $22, $24, $27, $29--$31, $34, $36).  The JSONB
  columns (\<open>JSON.stringify\<close>), the integer columns (\<open>parseInt\<close>), \<open>analysis_time\<close>
  (the clock) and \<open>analysis_confidence\<close> (\<open>parseFloat\<close>) are left out.
\<close>

definition prepareInsertValues :: "jsobj \<Rightarrow> jsobj" where
  "prepareInsertValues result =
    [(''remoteJid'', get result ''remoteJid''),
     (''product_category'',
        truncateString (js_or (get result ''product_category'') (JStr ''No Product Mentioned'')) 200),
     (''primary_sales_agent'', js_or (truncateString (get result ''primary_sales_agent'') 255) JNull),
     (''agent_handoff_detected'', toBoolean (get result ''agent_handoff_detected'')),
     (''lead_stage'', truncateString (js_or (get result ''lead_stage'') (JStr ''Inquiry'')) 100),
     (''next_action_required'', js_or (get result ''next_action_required'') JNull),
     (''sales_status'', js_or (truncateString (get result ''sales_status'') 200) JNull),
     (''urgency_level'', truncateString (js_or (get result ''urgency_level'') (JStr ''Low'')) 20),
     (''customer_name'', js_or (truncateString (get result ''customer_name'') 255) JNull),
     (''customer_location'', js_or (truncateString (get result ''customer_location'') 255) JNull),
     (''budget_range'', js_or (truncateString (get result ''budget_range'') 200) JNull),
     (''purchase_timeline'', js_or (truncateString (get result ''purchase_timeline'') 200) JNull),
     (''decision_maker_status'',
        js_or (truncateString (get result ''decision_maker_status'') 200) JNull),
     (''warranty_service_needs'', js_or (get result ''warranty_service_needs'') JNull),
     (''lead_source'', js_or (truncateString (get result ''lead_source'') 200) JNull),
     (''customer_sentiment'',
        truncateString (js_or (get result ''customer_sentiment'') (JStr ''Neutral'')) 50),
     (''pricing_discussed'', toBoolean (get result ''pricing_discussed'')),
     (''demo_scheduled'', toBoolean (get result ''demo_scheduled'')),
     (''follow_up_required'',
        toBoolean (JBool (get result ''follow_up_required'' \<noteq> JBool False))),
     (''last_customer_message_time'',
        js_or (metadataField result ''lastCustomerMessageTime'') JNull),
     (''ai_model_used'',
        js_or (get result ''aiModelUsed'') (js_or (get result ''ai_model_used'') (JStr ''gpt-3.5-turbo'')))]"

text \<open>
  The argument that \<open>prepareInsertValues\<close> hands to \<open>parseFloat\<close> for $35:
  \<open>result.analysisConfidence || result.analysis_confidence || 0.5\<close>.
\<close>

definition analysisConfidenceArgument :: "jsobj \<Rightarrow> jsval" where
  "analysisConfidenceArgument result =
    js_or (get result ''analysisConfidence'') (js_or (get result ''analysis_confidence'') (JNum 0.5))"

text \<open>
  The statements sent to the database.  \<open>INSERT_REPORT\<close> carries the values of
  \<open>prepareInsertValues\<close>, \<open>INSERT_CACHE\<close> the six parameters of the cache upsert by
  column name, \<open>SELECT_CACHE\<close> the requested identifiers and \<open>SELECT_MESSAGES\<close> the
  identifier of the chat.
\<close>

datatype db_command =
    BEGIN
  | COMMIT
  | ROLLBACK
  | INSERT_REPORT jsobj
  | INSERT_CACHE jsobj
  | SELECT_CACHE "string list"
  | SELECT_MESSAGES string

text \<open>
  The database as ChatService sees it is a parameter: \<open>getClient()\<close> may reject, and
  every statement sent through \<open>query\<close> or \<open>client.query\<close> may throw.  In
  ChatService a thrown statement ends the call or its transaction (only a ROLLBACK
  follows it), so the answer is taken per statement.
\<close>

record pg_client =
  connect_error :: "js_error option"
  query_error :: "db_command \<Rightarrow> js_error option"

text \<open>
  An entry of \<open>errors\<close>: \<open>{remoteJid, error, code}\<close> for a row, \<open>{error}\<close> for the
  whole call.
\<close>

datatype insert_error = RowError jsval string "string option" | CallError string

record insert_report =
  success :: nat
  failed :: nat
  errors :: "insert_error list"

text \<open>
  \<open>bulkInsertAnalysisResults\<close> goes on sending statements on a connection after one of
  them has thrown, so what the store answers may depend on what it was sent before.  For
  this function the store is a state machine over a state \<open>'db\<close> of its own:
  \<open>getClient\<close> answers \<open>getClient()\<close> and \<open>clientQuery\<close> answers \<open>client.query\<close>,
  each with the error it throws, if any, and the next state.  Any behaviour of a database
  is an instance, a PostgreSQL session among them (see \<open>postgres\<close> below).
\<close>

record 'db pg_store =
  getClient :: "'db \<Rightarrow> js_error option \<times> 'db"
  clientQuery :: "db_command \<Rightarrow> 'db \<Rightarrow> js_error option \<times> 'db"

text \<open>
  The \<open>for\<close> loop over the rows, with \<open>successCount\<close>, \<open>errorCount\<close>,
  \<open>errors\<close>, the statements issued so far and the state of the store.  \<open>Inl\<close> is the
  exception thrown out of the loop.
\<close>

fun insertRows ::
  "'db pg_store \<Rightarrow> jsobj list \<Rightarrow> nat \<Rightarrow> nat \<Rightarrow> insert_error list \<Rightarrow> db_command list \<Rightarrow> 'db
    \<Rightarrow> (js_error + nat \<times> nat \<times> insert_error list) \<times> db_command list \<times> 'db" where
  "insertRows store [] successCount errorCount errs issued db =
     (Inr (successCount, errorCount, errs), issued, db)"
| "insertRows store (result # rest) successCount errorCount errs issued db =
     (let stmt = INSERT_REPORT (prepareInsertValues result);
          answer = clientQuery store stmt db
      in case fst answer of
           None \<Rightarrow>
             insertRows store rest (successCount + 1) errorCount errs (issued @ [stmt]) (snd answer)
         | Some e \<Rightarrow>
             if errorCount + 1 > 50
             then (Inl \<lparr>message = ''Too many insertion errors'', code = None, status = None\<rparr>,
                   issued @ [stmt], snd answer)
             else insertRows store rest successCount (errorCount + 1)
                    (errs @ [RowError (get result ''remoteJid'') (message e) (code e)])
                    (issued @ [stmt]) (snd answer))"

text \<open>The \<open>try\<close> block: BEGIN, the loop, COMMIT.\<close>

definition bulkInsertTry ::
  "'db pg_store \<Rightarrow> jsobj list \<Rightarrow> 'db \<Rightarrow> (js_error + insert_report) \<times> db_command list \<times> 'db" where
  "bulkInsertTry store rows db =
    (case clientQuery store BEGIN db of
       (Some e, db1) \<Rightarrow> (Inl e, [BEGIN], db1)
     | (None, db1) \<Rightarrow>
        (case insertRows store rows 0 0 [] [BEGIN] db1 of
           (Inl e, issued, db2) \<Rightarrow> (Inl e, issued, db2)
         | (Inr (successCount, errorCount, errs), issued, db2) \<Rightarrow>
             (case clientQuery store COMMIT db2 of
                (Some e, db3) \<Rightarrow> (Inl e, issued @ [COMMIT], db3)
              | (None, db3) \<Rightarrow>
                  (Inr \<lparr>success = successCount, failed = errorCount, errors = errs\<rparr>,
                   issued @ [COMMIT], db3))))"

text \<open>
  \<open>bulkInsertAnalysisResults\<close>: how the promise settles, the statements issued and the
  state of the store afterwards.  The argument is \<open>None\<close> for \<open>null\<close> or
  \<open>undefined\<close>.  \<open>getClient()\<close> is awaited before the \<open>try\<close>, so its rejection
  leaves the function; so does an exception of the ROLLBACK in the \<open>catch\<close>.
\<close>

definition bulkInsertAnalysisResults ::
  "'db pg_store \<Rightarrow> jsobj list option \<Rightarrow> 'db
    \<Rightarrow> (js_error + insert_report) \<times> db_command list \<times> 'db" where
  "bulkInsertAnalysisResults store analysisResults db =
    (case analysisResults of
       None \<Rightarrow> (Inr \<lparr>success = 0, failed = 0, errors = []\<rparr>, [], db)
     | Some rows \<Rightarrow>
         if rows = [] then (Inr \<lparr>success = 0, failed = 0, errors = []\<rparr>, [], db)
         else
           (case getClient store db of
              (Some e, db0) \<Rightarrow> (Inl e, [], db0)
            | (None, db0) \<Rightarrow>
               (case bulkInsertTry store rows db0 of
                  (Inr report, issued, db1) \<Rightarrow> (Inr report, issued, db1)
                | (Inl e, issued, db1) \<Rightarrow>
                    (case clientQuery store ROLLBACK db1 of
                       (Some e', db2) \<Rightarrow> (Inl e', issued @ [ROLLBACK], db2)
                     | (None, db2) \<Rightarrow>
                         (Inr \<lparr>success = 0, failed = length rows,
                               errors = [CallError (message e)]\<rparr>,
                          issued @ [ROLLBACK], db2)))))"

section \<open>AIAnalyzer: batches with incremental saves\<close>

text \<open>
  A work item of \<open>analyzeConversationsBatch\<close>, as \<open>processChatsBatch\<close> builds it.
  Absent properties are \<open>None\<close> (\<open>False\<close> for \<open>fromCache\<close>).
\<close>

record conv_data =
  remoteJid :: string
  chatName :: "string option"
  conversation :: "string option"
  metadata :: "jsobj option"
  hasMessages :: bool
  error :: "string option"
  fromCache :: bool

text \<open>\<open>data.error\<close> as a condition, and \<open>data.metadata || {}\<close>.\<close>

definition hasError :: "conv_data \<Rightarrow> bool" where
  "hasError data = (case error data of None \<Rightarrow> False | Some m \<Rightarrow> m \<noteq> [])"

definition metadataOrEmpty :: "conv_data \<Rightarrow> jsval" where
  "metadataOrEmpty data = JObj (case metadata data of None \<Rightarrow> [] | Some m \<Rightarrow> m)"

text \<open>
  The function mapped over a batch (one promise per item): the result of the item and the
  prompts it sent.  The \<open>catch\<close> handles a rejection of \<open>analyzeSalesConversation\<close>.
\<close>

definition analyzeItem :: "string option \<Rightarrow> ai_service \<Rightarrow> conv_data \<Rightarrow> jsobj \<times> string list" where
  "analyzeItem OPENAI_MODEL openai data =
    (if hasError data \<or> \<not> hasMessages data
     then (spread (getEmptyAnalysis (remoteJid data)) [(''metadata'', metadataOrEmpty data)], [])
     else
       (case analyzeSalesConversation OPENAI_MODEL openai (conversation data) (remoteJid data) of
          (Inr analysis, sent) \<Rightarrow>
            (spread analysis
               [(''metadata'', metadataOrEmpty data), (''analysisSuccess'', JBool True)],
             sent)
        | (Inl err, sent) \<Rightarrow>
            (spread (getEmptyAnalysis (remoteJid data))
               [(''error'', JStr (message err)),
                (''errorCode'',
                   JStr (case code err of None \<Rightarrow> ''unknown''
                         | Some c \<Rightarrow> if c = [] then ''unknown'' else c)),
                (''metadata'', metadataOrEmpty data),
                (''analysisSuccess'', JBool False)],
             sent)))"

definition analysisSuccess :: "jsobj \<Rightarrow> bool" where
  "analysisSuccess result = truthy (get result ''analysisSuccess'')"

definition SAVE_INTERVAL :: nat where
  "SAVE_INTERVAL = 50"

text \<open>
  What the console shows of the saves: the announcement with the results handed to the
  callback, then either the completion or the failure message.
\<close>

datatype save_event =
    IncrementalSave nat "jsobj list"
  | FinalSave "jsobj list"
  | SaveCompleted
  | SaveFailed string

text \<open>
  The variables of \<open>analyzeConversationsBatch\<close>, the prompts sent so far, the console
  events, and the state captured by the save callback.
\<close>

record 's batch_state =
  results :: "jsobj list"
  accumulatedForSave :: "jsobj list"
  batchNumber :: nat
  requests :: "string list"
  console :: "save_event list"
  saver :: 's

type_synonym ('s, 'r) save_callback = "jsobj list \<Rightarrow> 's \<Rightarrow> (js_error + 'r) \<times> 's"

text \<open>
  \<open>try { await incrementalSaveCallback(payload) } catch (error) { console.error(...) }\<close>,
  after the announcement \<open>announce\<close>.
\<close>

definition trySave ::
  "('s, 'r) save_callback \<Rightarrow> save_event \<Rightarrow> jsobj list \<Rightarrow> 's batch_state \<Rightarrow> 's batch_state" where
  "trySave callback announce payload st =
    (case callback payload (saver st) of
       (Inr r, s') \<Rightarrow> st\<lparr>console := console st @ [announce, SaveCompleted], saver := s'\<rparr>
     | (Inl e, s') \<Rightarrow> st\<lparr>console := console st @ [announce, SaveFailed (message e)], saver := s'\<rparr>)"

text \<open>The incremental save at the end of a loop iteration.\<close>

definition checkpoint :: "('s, 'r) save_callback option \<Rightarrow> 's batch_state \<Rightarrow> 's batch_state" where
  "checkpoint incrementalSaveCallback st =
    (case incrementalSaveCallback of
       None \<Rightarrow> st
     | Some callback \<Rightarrow>
         if batchNumber st mod SAVE_INTERVAL = 0
         then
           (let successfulInBatch = filter analysisSuccess (accumulatedForSave st);
                st' = (if length successfulInBatch > 0
                       then trySave callback (IncrementalSave (batchNumber st) successfulInBatch)
                              successfulInBatch st
                       else st)
            in st'\<lparr>accumulatedForSave := []\<rparr>)
         else st)"

text \<open>
  One iteration of the \<open>for\<close> loop at index \<open>i\<close>.  The promises of a batch are settled
  in the order of the batch.
\<close>

definition analyzeStep ::
  "string option \<Rightarrow> ai_service \<Rightarrow> ('s, 'r) save_callback option \<Rightarrow> conv_data list \<Rightarrow> nat \<Rightarrow> nat
    \<Rightarrow> 's batch_state \<Rightarrow> 's batch_state" where
  "analyzeStep OPENAI_MODEL openai incrementalSaveCallback conversationData batchSize i st =
    (let batch = take batchSize (drop i conversationData);
         settled = map (analyzeItem OPENAI_MODEL openai) batch;
         batchResults = map fst settled
     in checkpoint incrementalSaveCallback
          (st\<lparr>results := results st @ batchResults,
              accumulatedForSave := accumulatedForSave st @ batchResults,
              batchNumber := batchNumber st + 1,
              requests := requests st @ concat (map snd settled)\<rparr>))"

text \<open>
  \<open>for (let i = 0; i < conversationData.length; i += batchSize)\<close>.  With
  \<open>batchSize = 0\<close> and a non-empty input the loop never ends: the value is \<open>None\<close>.
\<close>

partial_function (option) analyzeLoop ::
  "string option \<Rightarrow> ai_service \<Rightarrow> ('s, 'r) save_callback option \<Rightarrow> conv_data list \<Rightarrow> nat \<Rightarrow> nat
    \<Rightarrow> 's batch_state \<Rightarrow> 's batch_state option" where
  "analyzeLoop OPENAI_MODEL openai incrementalSaveCallback conversationData batchSize i st =
    (if i < length conversationData
     then analyzeLoop OPENAI_MODEL openai incrementalSaveCallback conversationData batchSize
            (i + batchSize)
            (analyzeStep OPENAI_MODEL openai incrementalSaveCallback conversationData batchSize i st)
     else Some st)"

text \<open>The final save for the remaining records.\<close>

definition finalSave :: "('s, 'r) save_callback option \<Rightarrow> 's batch_state \<Rightarrow> 's batch_state" where
  "finalSave incrementalSaveCallback st =
    (case incrementalSaveCallback of
       None \<Rightarrow> st
     | Some callback \<Rightarrow>
         if length (accumulatedForSave st) > 0
         then
           (let successfulRemaining = filter analysisSuccess (accumulatedForSave st)
            in if length successfulRemaining > 0
               then trySave callback (FinalSave successfulRemaining) successfulRemaining st
               else st)
         else st)"

text \<open>
  \<open>analyzeConversationsBatch\<close>: the source returns \<open>results\<close>; the model returns the
  whole final state, of which \<open>results\<close> is a field.  \<open>s0\<close> is the state the callback
  has captured when the call starts.
\<close>

definition analyzeConversationsBatch ::
  "string option \<Rightarrow> ai_service \<Rightarrow> conv_data list \<Rightarrow> nat \<Rightarrow> ('s, 'r) save_callback option \<Rightarrow> 's
    \<Rightarrow> 's batch_state option" where
  "analyzeConversationsBatch OPENAI_MODEL openai conversationData batchSize incrementalSaveCallback s0 =
    map_option (finalSave incrementalSaveCallback)
      (analyzeLoop OPENAI_MODEL openai incrementalSaveCallback conversationData batchSize 0
         \<lparr>results = [], accumulatedForSave = [], batchNumber = 0, requests = [], console = [],
          saver = s0\<rparr>)"

section \<open>The run: save callback and final statistics\<close>

text \<open>
  The variables captured by \<open>incrementalSaveCallback\<close> in \<open>runAnalysis\<close>, the
  statements sent to the database so far and the state of the store.
\<close>

record 'db save_state =
  totalSaved :: nat
  saveAttempts :: nat
  statements :: "db_command list"
  database :: 'db

definition incrementalSaveCallback ::
  "'db pg_store \<Rightarrow> ('db save_state, insert_report) save_callback" where
  "incrementalSaveCallback store successfulBatch s =
    (let s1 = s\<lparr>saveAttempts := saveAttempts s + 1\<rparr> in
     case bulkInsertAnalysisResults store (Some successfulBatch) (database s1) of
       (Inr result, issued, db') \<Rightarrow>
         (Inr result,
          s1\<lparr>totalSaved := totalSaved s1 + success result, statements := statements s1 @ issued,
             database := db'\<rparr>)
     | (Inl e, issued, db') \<Rightarrow>
         (Inl e, s1\<lparr>statements := statements s1 @ issued, database := db'\<rparr>))"

text \<open>The final statistics of \<open>runAnalysis\<close>.\<close>

definition successfulAnalyses :: "jsobj list \<Rightarrow> jsobj list" where
  "successfulAnalyses analysisResults = filter analysisSuccess analysisResults"

definition quotaFailures :: "jsobj list \<Rightarrow> jsobj list" where
  "quotaFailures analysisResults =
    filter (\<lambda>result. get result ''errorCode'' = JStr ''insufficient_quota'') analysisResults"

section \<open>ChatService: the conversation cache\<close>

text \<open>
  The table \<open>ConversationCache\<close>: a map from the primary key \<open>remoteJid\<close> to the row,
  each row an object from column names to values.  A transaction writes nothing unless
  its COMMIT returns.
\<close>

type_synonym cache_table = "string \<rightharpoonup> jsobj"

text \<open>The value stored in the \<open>Map\<close> for a row of the SELECT.\<close>

definition cacheEntry :: "jsobj \<Rightarrow> jsobj" where
  "cacheEntry row =
    [(''conversation'', get row ''conversation_text''),
     (''metadata'', JObj
        [(''totalMessages'', get row ''total_messages''),
         (''conversationDurationDays'', get row ''conversation_duration_days''),
         (''lastCustomerMessageTime'', get row ''last_customer_message_time'')]),
     (''chatName'', get row ''chat_name''),
     (''cachedAt'', get row ''processed_at'')]"

text \<open>The rows with \<open>"remoteJid" = ANY($1)\<close>, each with its key.\<close>

definition selectCache :: "cache_table \<Rightarrow> string list \<Rightarrow> (string \<times> jsobj) list" where
  "selectCache cache remoteJids =
    List.map_filter (\<lambda>jid. map_option (Pair jid) (cache jid)) (remdups remoteJids)"

text \<open>
  \<open>getCachedConversations\<close>: the \<open>Map\<close> it resolves to, or \<open>Inl\<close> if it rejected.
  The argument is \<open>None\<close> for \<open>null\<close> or \<open>undefined\<close>.
\<close>

definition getCachedConversations ::
  "pg_client \<Rightarrow> cache_table \<Rightarrow> string list option \<Rightarrow> js_error + (string \<rightharpoonup> jsobj)" where
  "getCachedConversations client cache remoteJids =
    (case remoteJids of
       None \<Rightarrow> Inr Map.empty
     | Some ids \<Rightarrow>
         if ids = [] then Inr Map.empty
         else
           (case query_error client (SELECT_CACHE ids) of
              None \<Rightarrow>
                Inr (fold (\<lambda>(jid, row) cacheMap. cacheMap(jid \<mapsto> cacheEntry row))
                       (selectCache cache ids) Map.empty)
            | Some e \<Rightarrow> Inr Map.empty))"

text \<open>\<open>conv.metadata?.key\<close> and \<open>conv.chatName\<close> as values.\<close>

definition convMetadata :: "conv_data \<Rightarrow> string \<Rightarrow> jsval" where
  "convMetadata conv k = (case metadata conv of None \<Rightarrow> JUndefined | Some m \<Rightarrow> get m k)"

definition convChatName :: "conv_data \<Rightarrow> jsval" where
  "convChatName conv = (case chatName conv of None \<Rightarrow> JUndefined | Some n \<Rightarrow> JStr n)"

text \<open>The parameters $1..$6 of the cache upsert, for a conversation with a transcript.\<close>

definition cacheParams :: "conv_data \<Rightarrow> string \<Rightarrow> jsobj" where
  "cacheParams conv transcript =
    [(''remoteJid'', JStr (remoteJid conv)),
     (''conversation_text'', JStr transcript),
     (''total_messages'', js_or (convMetadata conv ''totalMessages'') (JNum 0)),
     (''conversation_duration_days'', js_or (convMetadata conv ''conversationDurationDays'') (JNum 0)),
     (''last_customer_message_time'', js_or (convMetadata conv ''lastCustomerMessageTime'') JNull),
     (''chat_name'', js_or (convChatName conv) JNull)]"

text \<open>
  \<open>INSERT ... ON CONFLICT ("remoteJid") DO UPDATE SET ...\<close> at time \<open>now\<close>: every column
  of the row is written, on insert and on conflict alike.
\<close>

definition upsertCache :: "int \<Rightarrow> string \<Rightarrow> jsobj \<Rightarrow> cache_table \<Rightarrow> cache_table" where
  "upsertCache now jid params cache =
    cache(jid \<mapsto> params @ [(''processed_at'', JDate now), (''UPDATED_AT'', JDate now)])"

text \<open>
  The \<open>for\<close> loop of \<open>saveConversationsToCache\<close> on the table of the transaction;
  a conversation is written if \<open>conv.conversation && conv.conversation.trim() !== ''\<close>.
\<close>

fun cacheRows :: "pg_client \<Rightarrow> int \<Rightarrow> conv_data list \<Rightarrow> cache_table \<Rightarrow> js_error + cache_table" where
  "cacheRows client now [] tbl = Inr tbl"
| "cacheRows client now (conv # rest) tbl =
    (case conversation conv of
       None \<Rightarrow> cacheRows client now rest tbl
     | Some transcript \<Rightarrow>
         if transcript \<noteq> [] \<and> trim transcript \<noteq> []
         then
           (let params = cacheParams conv transcript in
            case query_error client (INSERT_CACHE params) of
              None \<Rightarrow> cacheRows client now rest (upsertCache now (remoteJid conv) params tbl)
            | Some e \<Rightarrow> Inl e)
         else cacheRows client now rest tbl)"

text \<open>The \<open>try\<close> block of \<open>saveConversationsToCache\<close>.\<close>

definition saveToCacheTry ::
  "pg_client \<Rightarrow> int \<Rightarrow> conv_data list \<Rightarrow> cache_table \<Rightarrow> js_error + cache_table" where
  "saveToCacheTry client now conversations cache =
    (case query_error client BEGIN of
       Some e \<Rightarrow> Inl e
     | None \<Rightarrow>
        (case cacheRows client now conversations cache of
           Inl e \<Rightarrow> Inl e
         | Inr tbl \<Rightarrow>
            (case query_error client COMMIT of Some e \<Rightarrow> Inl e | None \<Rightarrow> Inr tbl)))"

text \<open>
  \<open>saveConversationsToCache\<close> at time \<open>now\<close>: how the promise settles, and the table
  afterwards.  The argument is \<open>None\<close> for \<open>null\<close> or \<open>undefined\<close>.
\<close>

definition saveConversationsToCache ::
  "pg_client \<Rightarrow> int \<Rightarrow> conv_data list option \<Rightarrow> cache_table \<Rightarrow> (js_error + unit) \<times> cache_table" where
  "saveConversationsToCache client now conversations cache =
    (case conversations of
       None \<Rightarrow> (Inr (), cache)
     | Some convs \<Rightarrow>
         if convs = [] then (Inr (), cache)
         else
           (case connect_error client of
              Some e \<Rightarrow> (Inl e, cache)
            | None \<Rightarrow>
               (case saveToCacheTry client now convs cache of
                  Inr tbl \<Rightarrow> (Inr (), tbl)
                | Inl e \<Rightarrow>
                    (case query_error client ROLLBACK of
                       Some e' \<Rightarrow> (Inl e', cache)
                     | None \<Rightarrow> (Inr (), cache)))))"

section \<open>ChatService: building conversations in batches\<close>
















section \<open>Notions used in the properties\<close>

subsection \<open>Columns with a maximum length\<close>

text \<open>
  The columns of "SalesAnalysisReport" that schemas.sql declares as \<open>VARCHAR(n)\<close>, in
  the order of the table, each with its \<open>n\<close>.
\<close>

definition schemaLimits :: "(string \<times> nat) list" where
  "schemaLimits =
    [(''remoteJid'', 100), (''product_category'', 200), (''primary_sales_agent'', 255),
     (''lead_stage'', 100), (''sales_status'', 200), (''urgency_level'', 20),
     (''customer_name'', 255), (''customer_location'', 255), (''budget_range'', 200),
     (''purchase_timeline'', 200), (''decision_maker_status'', 200), (''lead_source'', 200),
     (''customer_sentiment'', 50), (''ai_model_used'', 50)]"

text \<open>
  The text columns that \<open>prepareInsertValues\<close> passes through \<open>truncateString\<close>, each
  with the limit it passes and with what the \<open>||\<close> of its line puts in place of an empty
  string.
\<close>

definition truncatedColumns :: "(string \<times> nat \<times> jsval) list" where
  "truncatedColumns =
    [(''product_category'', 200, JStr ''No Product Mentioned''),
     (''primary_sales_agent'', 255, JNull),
     (''lead_stage'', 100, JStr ''Inquiry''),
     (''sales_status'', 200, JNull),
     (''urgency_level'', 20, JStr ''Low''),
     (''customer_name'', 255, JNull),
     (''customer_location'', 255, JNull),
     (''budget_range'', 200, JNull),
     (''purchase_timeline'', 200, JNull),
     (''decision_maker_status'', 200, JNull),
     (''lead_source'', 200, JNull),
     (''customer_sentiment'', 50, JStr ''Neutral'')]"

subsection \<open>The answers of a store to the inserts of a call\<close>

text \<open>The INSERT statement of a result.\<close>

definition insertOf :: "jsobj \<Rightarrow> db_command" where
  "insertOf result = INSERT_REPORT (prepareInsertValues result)"

text \<open>
  What the store answers when it is sent the inserts of \<open>rows\<close> one after the other
  from the state \<open>db\<close> (\<open>None\<close>: accepted), and the state it is in afterwards.
\<close>

fun insertAnswers :: "'db pg_store \<Rightarrow> jsobj list \<Rightarrow> 'db \<Rightarrow> js_error option list" where
  "insertAnswers store [] db = []"
| "insertAnswers store (r # rs) db =
     fst (clientQuery store (insertOf r) db)
       # insertAnswers store rs (snd (clientQuery store (insertOf r) db))"

fun afterInserts :: "'db pg_store \<Rightarrow> jsobj list \<Rightarrow> 'db \<Rightarrow> 'db" where
  "afterInserts store [] db = db"
| "afterInserts store (r # rs) db =
     afterInserts store rs (snd (clientQuery store (insertOf r) db))"

text \<open>An insert has failed if its answer is an error.\<close>

definition failure :: "js_error option \<Rightarrow> bool" where
  "failure answer = (answer \<noteq> None)"

text \<open>The entries of \<open>errors\<close> for the rows whose insert failed.\<close>

fun rowErrors :: "jsobj list \<Rightarrow> js_error option list \<Rightarrow> insert_error list" where
  "rowErrors (r # rs) (Some e # answers) =
     RowError (get r ''remoteJid'') (message e) (code e) # rowErrors rs answers"
| "rowErrors (r # rs) (None # answers) = rowErrors rs answers"
| "rowErrors [] answers = []"
| "rowErrors rows [] = []"

text \<open>
  The length of the longest run of consecutive elements with property \<open>P\<close>, given the
  length \<open>cur\<close> of the run that ends just before the list.
\<close>

fun maxRun :: "('a \<Rightarrow> bool) \<Rightarrow> 'a list \<Rightarrow> nat \<Rightarrow> nat" where
  "maxRun P [] cur = cur"
| "maxRun P (x # xs) cur = (if P x then maxRun P xs (Suc cur) else max cur (maxRun P xs 0))"

definition tooManyErrors :: js_error where
  "tooManyErrors = \<lparr>message = ''Too many insertion errors'', code = None, status = None\<rparr>"

subsection \<open>A PostgreSQL session\<close>

text \<open>
  A session of a PostgreSQL server as an instance of the store.  The table
  "SalesAnalysisReport" is a map from the primary key \<open>remoteJid\<close> to the row.  A
  session is idle, or in a transaction with a working copy of the table, or in a
  transaction that a failed statement has aborted.  \<open>violation\<close> gives the error with
  which the server rejects the values of an INSERT, if it does (a constraint of the
  table).  In a transaction, a rejected INSERT aborts the transaction; in an aborted
  transaction every statement but COMMIT and ROLLBACK is rejected with SQLSTATE 25P02;
  COMMIT installs the working copy, and on an aborted transaction it rolls back without
  an error.  The INSERT is an upsert on \<open>remoteJid\<close> that sets every column.
\<close>

datatype txn = Idle | Active "jsval \<rightharpoonup> jsobj" | Aborted

record pg_session =
  committed :: "jsval \<rightharpoonup> jsobj"
  transaction :: txn

definition abortedError :: js_error where
  "abortedError =
    \<lparr>message = ''current transaction is aborted, commands ignored until end of transaction block'',
     code = Some ''25P02'', status = None\<rparr>"

fun pgQuery ::
  "(jsobj \<Rightarrow> js_error option) \<Rightarrow> db_command \<Rightarrow> pg_session \<Rightarrow> js_error option \<times> pg_session" where
  "pgQuery violation BEGIN s =
     (case transaction s of
        Idle \<Rightarrow> (None, s\<lparr>transaction := Active (committed s)\<rparr>)
      | Active working \<Rightarrow> (None, s)
      | Aborted \<Rightarrow> (Some abortedError, s))"
| "pgQuery violation COMMIT s =
     (case transaction s of
        Idle \<Rightarrow> (None, s)
      | Active working \<Rightarrow> (None, \<lparr>committed = working, transaction = Idle\<rparr>)
      | Aborted \<Rightarrow> (None, s\<lparr>transaction := Idle\<rparr>))"
| "pgQuery violation ROLLBACK s = (None, s\<lparr>transaction := Idle\<rparr>)"
| "pgQuery violation (INSERT_REPORT values) s =
     (case transaction s of
        Idle \<Rightarrow>
          (case violation values of
             Some e \<Rightarrow> (Some e, s)
           | None \<Rightarrow> (None, s\<lparr>committed := (committed s)(get values ''remoteJid'' \<mapsto> values)\<rparr>))
      | Active working \<Rightarrow>
          (case violation values of
             Some e \<Rightarrow> (Some e, s\<lparr>transaction := Aborted\<rparr>)
           | None \<Rightarrow>
               (None, s\<lparr>transaction := Active (working(get values ''remoteJid'' \<mapsto> values))\<rparr>))
      | Aborted \<Rightarrow> (Some abortedError, s))"
| "pgQuery violation (INSERT_CACHE values) s =
     (case transaction s of Aborted \<Rightarrow> (Some abortedError, s) | _ \<Rightarrow> (None, s))"
| "pgQuery violation (SELECT_CACHE ids) s =
     (case transaction s of Aborted \<Rightarrow> (Some abortedError, s) | _ \<Rightarrow> (None, s))"
| "pgQuery violation (SELECT_MESSAGES jid) s =
     (case transaction s of Aborted \<Rightarrow> (Some abortedError, s) | _ \<Rightarrow> (None, s))"

definition postgres :: "(jsobj \<Rightarrow> js_error option) \<Rightarrow> pg_session pg_store" where
  "postgres violation = \<lparr>getClient = (\<lambda>s. (None, s)), clientQuery = pgQuery violation\<rparr>"

text \<open>
  An idle session on a table, the session after its BEGIN, and the upsert of a result
  into a table.
\<close>

definition idle :: "(jsval \<rightharpoonup> jsobj) \<Rightarrow> pg_session" where
  "idle table = \<lparr>committed = table, transaction = Idle\<rparr>"

definition inTransaction :: "(jsval \<rightharpoonup> jsobj) \<Rightarrow> pg_session" where
  "inTransaction table = \<lparr>committed = table, transaction = Active table\<rparr>"

definition storeRow :: "jsobj \<Rightarrow> (jsval \<rightharpoonup> jsobj) \<Rightarrow> (jsval \<rightharpoonup> jsobj)" where
  "storeRow result table =
    table(get (prepareInsertValues result) ''remoteJid'' \<mapsto> prepareInsertValues result)"

text \<open>
  The constraint \<open>"remoteJid" VARCHAR(100) NOT NULL\<close>, a row that satisfies it and a row
  that violates it.
\<close>

definition notNullViolation :: js_error where
  "notNullViolation =
    \<lparr>message = ''null value in column remoteJid violates not-null constraint'',
     code = Some ''23502'', status = None\<rparr>"

definition notNull :: "jsobj \<Rightarrow> js_error option" where
  "notNull values = (if get values ''remoteJid'' = JNull then Some notNullViolation else None)"

definition goodRow :: jsobj where
  "goodRow = [(''remoteJid'', JStr ''c1'')]"

definition badRow :: jsobj where
  "badRow = [(''remoteJid'', JNull)]"

subsection \<open>Runs of the analysis\<close>






text \<open>The state in which \<open>analyzeConversationsBatch\<close> enters its loop.\<close>

definition startState :: "'s \<Rightarrow> 's batch_state" where
  "startState s0 =
    \<lparr>results = [], accumulatedForSave = [], batchNumber = 0, requests = [], console = [],
     saver = s0\<rparr>"

text \<open>
  A conversation with a transcript; a classifier that answers every request with the
  empty object, and one that rejects every request for lack of quota; a store that
  cannot be reached; the state of the save callback when a run starts.
\<close>

definition helloItem :: conv_data where
  "helloItem =
    \<lparr>remoteJid = ''c1'', chatName = None, conversation = Some ''hi'', metadata = None,
     hasMessages = True, error = None, fromCache = False\<rparr>"


definition quotaError :: js_error where
  "quotaError =
    \<lparr>message = ''You exceeded your current quota'', code = Some ''insufficient_quota'',
     status = Some 429\<rparr>"

definition quotaService :: ai_service where
  "quotaService = (\<lambda>prompt. \<lparr>elapsedMs = 7, outcome = Inl quotaError\<rparr>)"

definition timeoutError :: js_error where
  "timeoutError = \<lparr>message = ''connect ETIMEDOUT'', code = Some ''ETIMEDOUT'', status = None\<rparr>"






subsection \<open>The conversation cache\<close>

text \<open>A store for ChatService that accepts everything.\<close>

definition workingStore :: pg_client where
  "workingStore = \<lparr>connect_error = None, query_error = (\<lambda>c. None)\<rparr>"

text \<open>
  A conversation has a transcript if its text is neither absent nor blank; a cache table
  is sound if the \<open>conversation_text\<close> of every row is a string that is not blank;
  \<open>cacheWrites\<close> applies a sequence of calls of \<open>saveConversationsToCache\<close>, each
  with its own store behaviour, time and entries.
\<close>

definition hasTranscript :: "conv_data \<Rightarrow> bool" where
  "hasTranscript conv =
    (case conversation conv of None \<Rightarrow> False | Some t \<Rightarrow> t \<noteq> [] \<and> trim t \<noteq> [])"

definition nonBlankText :: "jsval \<Rightarrow> bool" where
  "nonBlankText v = (case v of JStr t \<Rightarrow> trim t \<noteq> [] | _ \<Rightarrow> False)"

definition cacheInvariant :: "cache_table \<Rightarrow> bool" where
  "cacheInvariant cache \<longleftrightarrow>
     (\<forall>jid row. cache jid = Some row \<longrightarrow> nonBlankText (get row ''conversation_text''))"

fun cacheWrites ::
  "(pg_client \<times> int \<times> conv_data list option) list \<Rightarrow> cache_table \<Rightarrow> cache_table" where
  "cacheWrites [] cache = cache"
| "cacheWrites ((client, now, conversations) # calls) cache =
     cacheWrites calls (snd (saveConversationsToCache client now conversations cache))"

text \<open>
  The upserts of a call at time \<open>now\<close>: for each entry with a transcript, in the order
  of the entries, its identifier, the parameters of its INSERT and the row it writes.
\<close>

definition cacheUpserts :: "int \<Rightarrow> conv_data list \<Rightarrow> (string \<times> jsobj \<times> jsobj) list" where
  "cacheUpserts now conversations =
    concat (map (\<lambda>conv. case conversation conv of
                          None \<Rightarrow> []
                        | Some t \<Rightarrow>
                            if t \<noteq> [] \<and> trim t \<noteq> []
                            then [(remoteJid conv, cacheParams conv t,
                                   cacheParams conv t
                                     @ [(''processed_at'', JDate now), (''UPDATED_AT'', JDate now)])]
                            else [])
                conversations)"

text \<open>
  The rows of a call by identifier: where several entries have the same identifier, the
  row of the last of them.
\<close>

definition writtenRows :: "int \<Rightarrow> conv_data list \<Rightarrow> cache_table" where
  "writtenRows now conversations =
    map_of (rev (map (\<lambda>(jid, params, row). (jid, row)) (cacheUpserts now conversations)))"

text \<open>
  The store lets a call through if it hands out a client and accepts BEGIN, the INSERT of
  every entry with a transcript, and COMMIT.
\<close>

definition letsThrough :: "pg_client \<Rightarrow> int \<Rightarrow> conv_data list \<Rightarrow> bool" where
  "letsThrough client now conversations \<longleftrightarrow>
     connect_error client = None \<and> query_error client BEGIN = None
     \<and> list_all (\<lambda>(jid, params, row). query_error client (INSERT_CACHE params) = None)
         (cacheUpserts now conversations)
     \<and> query_error client COMMIT = None"

definition blankItem :: conv_data where
  "blankItem =
    \<lparr>remoteJid = ''c2'', chatName = None, conversation = Some [CHR 0x20, CHR 0x0A],
     metadata = None, hasMessages = True, error = None, fromCache = False\<rparr>"

subsection \<open>Batches of chats\<close>




text \<open>A store whose pool answers queries but hands out no client.\<close>

definition noClientStore :: pg_client where
  "noClientStore = \<lparr>connect_error = Some timeoutError, query_error = (\<lambda>c. None)\<rparr>"




section \<open>Properties\<close>

subsection \<open>Objects and strings\<close>

lemma get_update: "get (AList.update k v obj) k' = (if k' = k then v else get obj k')"
  by (simp add: get_def update_conv')

lemma get_spread:
  "get (spread a b) k = (case map_of (rev b) k of Some v \<Rightarrow> v | None \<Rightarrow> get a k)"
  unfolding spread_def
proof (induction b arbitrary: a)
  case Nil
  then show ?case by simp
next
  case (Cons p b)
  obtain k' v' where p: "p = (k', v')" by (cases p)
  show ?case
    by (simp add: p Cons.IH get_update map_add_def split: option.splits)
qed

lemma trim_empty_iff: "trim s = [] \<longleftrightarrow> list_all isWhiteSpace s"
proof
  assume "trim s = []"
  then have all: "\<forall>c \<in> set (dropWhile isWhiteSpace s). isWhiteSpace c"
    by (simp add: trim_def dropWhile_eq_Nil_conv)
  have "dropWhile isWhiteSpace s = []"
  proof (rule ccontr)
    assume ne: "dropWhile isWhiteSpace s \<noteq> []"
    then have "\<not> isWhiteSpace (hd (dropWhile isWhiteSpace s))"
      by (rule hd_dropWhile)
    moreover have "hd (dropWhile isWhiteSpace s) \<in> set (dropWhile isWhiteSpace s)"
      using ne by simp
    ultimately show False using all by blast
  qed
  then show "list_all isWhiteSpace s"
    by (simp add: dropWhile_eq_Nil_conv list_all_iff)
next
  assume "list_all isWhiteSpace s"
  then show "trim s = []"
    by (auto simp: trim_def list_all_iff dest: set_dropWhileD)
qed

lemma get_empty_confidence: "get (getEmptyAnalysis jid) ''analysisConfidence'' = JNum 0.3"
  by (simp add: getEmptyAnalysis_def get_def)

lemma get_empty_category:
  "get (getEmptyAnalysis jid) ''product_category'' = JStr ''No Product Mentioned''"
  by (simp add: getEmptyAnalysis_def get_def)

subsection \<open>The analysis of one conversation\<close>

text \<open>
  Claim C6.  For every transcript that is empty or consists only of white space (and for
  an absent one), \<open>analyzeSalesConversation\<close> resolves to the canonical empty analysis
  of \<open>getEmptyAnalysis\<close>, whose category is 'No Product Mentioned' and which has all 31
  properties, and sends no request to the classifier: the list of prompts sent is empty.
\<close>

theorem blank_transcript_returns_empty_without_request:
  "list_all isWhiteSpace t \<Longrightarrow>
   analyzeSalesConversation OPENAI_MODEL openai (Some t) jid = (Inr (getEmptyAnalysis jid), [])
   \<and> analyzeSalesConversation OPENAI_MODEL openai None jid = (Inr (getEmptyAnalysis jid), [])
   \<and> get (getEmptyAnalysis jid) ''product_category'' = JStr ''No Product Mentioned''
   \<and> length (getEmptyAnalysis jid) = 31"
  by (simp add: analyzeSalesConversation_def trim_empty_iff get_empty_category)
     (simp add: getEmptyAnalysis_def)

text \<open>The transcript of a space, a line feed and a tab.\<close>

theorem blank_transcript_witness:
  "list_all isWhiteSpace [CHR 0x20, CHR 0x0A, CHR 0x09]
   \<and> analyzeSalesConversation None (\<lambda>p. \<lparr>elapsedMs = 0, outcome = Inr []\<rparr>)
        (Some [CHR 0x20, CHR 0x0A, CHR 0x09]) ''c1''
      = (Inr (getEmptyAnalysis ''c1''), [])"
proof -
  have ws: "list_all isWhiteSpace [CHR 0x20, CHR 0x0A, CHR 0x09]"
    by (simp add: isWhiteSpace_def)
  show ?thesis
    using ws blank_transcript_returns_empty_without_request [OF ws] by simp
qed

text \<open>
  Claim C4, as amended.  \<open>analyzeSalesConversation\<close> never rejects, and the confidence
  of its result is 0.3 for an absent or blank transcript, 0.1 when the request or the
  parsing of the answer failed, and otherwise the value of \<open>analysis_confidence\<close> in the
  answer, unchanged, if that value is truthy, and 0.8 if it is missing or falsy.  The
  default 0.5 of \<open>prepareInsertValues\<close> is never used for such a result, whose
  \<open>analysisConfidence\<close> is always truthy.
\<close>

theorem confidence_is_unclamped_with_tiers:
  "\<exists>r. fst (analyzeSalesConversation OPENAI_MODEL openai transcript jid) = Inr r
     \<and> get r ''analysisConfidence'' =
         (case transcript of
            None \<Rightarrow> JNum 0.3
          | Some t \<Rightarrow>
              if trim t = [] then JNum 0.3
              else (case outcome (openai (buildAnalysisPrompt t)) of
                      Inl e \<Rightarrow> JNum 0.1
                    | Inr analysis \<Rightarrow>
                        if truthy (get analysis ''analysis_confidence'')
                        then get analysis ''analysis_confidence'' else JNum 0.8))
     \<and> analysisConfidenceArgument r = get r ''analysisConfidence''"
proof (cases transcript)
  case None
  then show ?thesis
    by (simp add: analyzeSalesConversation_def get_empty_confidence analysisConfidenceArgument_def
        js_or_def)
next
  case (Some t)
  show ?thesis
  proof (cases "trim t = []")
    case True
    then show ?thesis using Some
      by (auto simp: analyzeSalesConversation_def get_empty_confidence
          analysisConfidenceArgument_def js_or_def)
  next
    case False
    then have ne: "t \<noteq> []" by (auto simp: trim_def)
    show ?thesis
    proof (cases "outcome (openai (buildAnalysisPrompt t))")
      case (Inl e)
      then show ?thesis using Some False ne
        by (simp add: analyzeSalesConversation_def Let_def get_spread
            analysisConfidenceArgument_def js_or_def)
    next
      case (Inr analysis)
      then show ?thesis using Some False ne
        by (simp add: analyzeSalesConversation_def Let_def get_spread
            analysisConfidenceArgument_def js_or_def)
    qed
  qed
qed

text \<open>
  Claim C4 as stated fails: an answer with \<open>analysis_confidence\<close> 1.7 gives a result
  with confidence 1.7, outside [0,1], and an answer without it gives 0.8, not 0.5.
\<close>

theorem confidence_counterexample:
  "fst (analyzeSalesConversation None
          (\<lambda>p. \<lparr>elapsedMs = 1, outcome = Inr [(''analysis_confidence'', JNum 1.7)]\<rparr>)
          (Some ''hi'') ''c1'')
     = Inr [(''analysis_confidence'', JNum 1.7), (''remoteJid'', JStr ''c1''),
            (''analysisConfidence'', JNum 1.7), (''aiModelUsed'', JStr ''gpt-3.5-turbo''),
            (''processingTimeMs'', JNum 1)]
   \<and> \<not> (1.7 :: real) \<le> 1
   \<and> fst (analyzeSalesConversation None (\<lambda>p. \<lparr>elapsedMs = 1, outcome = Inr []\<rparr>)
          (Some ''hi'') ''c1'')
     = Inr [(''remoteJid'', JStr ''c1''), (''analysisConfidence'', JNum 0.8),
            (''aiModelUsed'', JStr ''gpt-3.5-turbo''), (''processingTimeMs'', JNum 1)]
   \<and> (0.8 :: real) \<noteq> 0.5"
  by (simp add: analyzeSalesConversation_def trim_def isWhiteSpace_def spread_def get_def
      js_or_def modelUsed_def)

subsection \<open>Reads from the conversation cache\<close>

text \<open>
  Claim C10.  \<open>getCachedConversations\<close> never rejects, whatever the identifiers, the
  table and the behaviour of the store.  If the SELECT throws, it resolves to the empty
  \<open>Map\<close>, which is also what it resolves to on a working store with an empty table: a
  miss on every requested identifier.
\<close>

theorem cache_read_never_rejects:
  "(\<exists>m. getCachedConversations client cache remoteJids = Inr m)
   \<and> (query_error client (SELECT_CACHE ids) \<noteq> None \<longrightarrow>
        getCachedConversations client cache (Some ids) = Inr Map.empty
        \<and> getCachedConversations client cache (Some ids)
            = getCachedConversations \<lparr>connect_error = None, query_error = \<lambda>c. None\<rparr>
                Map.empty (Some ids))"
  by (auto simp: getCachedConversations_def selectCache_def List.map_filter_def
      split: option.splits)

text \<open>A store whose every statement throws, and a table holding the requested row.\<close>

theorem cache_read_witness:
  "query_error \<lparr>connect_error = None,
                query_error = \<lambda>c. Some \<lparr>message = ''connection terminated'', code = None, status = None\<rparr>\<rparr>
     (SELECT_CACHE [''c1'']) \<noteq> None
   \<and> getCachedConversations
        \<lparr>connect_error = None,
         query_error = \<lambda>c. Some \<lparr>message = ''connection terminated'', code = None, status = None\<rparr>\<rparr>
        [''c1'' \<mapsto> [(''conversation_text'', JStr ''hello'')]] (Some [''c1''])
      = Inr Map.empty"
  using cache_read_never_rejects
    [of "\<lparr>connect_error = None,
         query_error = \<lambda>c. Some \<lparr>message = ''connection terminated'', code = None, status = None\<rparr>\<rparr>"
        "[''c1'' \<mapsto> [(''conversation_text'', JStr ''hello'')]]" "Some [''c1'']" "[''c1'']"]
  by simp


subsection \<open>Truncation of text columns\<close>

lemma get_Cons: "get ((k, v) # obj) k' = (if k' = k then v else get obj k')"
  by (simp add: get_def)

lemma get_Nil: "get [] k = JUndefined"
  by (simp add: get_def)

lemma truncateString_nonempty:
  "s \<noteq> [] \<Longrightarrow>
   truncateString (JStr s) L = JStr (if length s > L then take (L - 3) s @ ''...'' else s)"
  by (simp add: truncateString_def)

lemma prepared_defaulted_columns:
  "get (prepareInsertValues result) ''product_category''
     = truncateString (js_or (get result ''product_category'') (JStr ''No Product Mentioned'')) 200"
  "get (prepareInsertValues result) ''lead_stage''
     = truncateString (js_or (get result ''lead_stage'') (JStr ''Inquiry'')) 100"
  "get (prepareInsertValues result) ''urgency_level''
     = truncateString (js_or (get result ''urgency_level'') (JStr ''Low'')) 20"
  "get (prepareInsertValues result) ''customer_sentiment''
     = truncateString (js_or (get result ''customer_sentiment'') (JStr ''Neutral'')) 50"
  unfolding prepareInsertValues_def by (simp_all add: get_Cons)

lemma prepared_nullable_columns:
  "get (prepareInsertValues result) ''primary_sales_agent''
     = js_or (truncateString (get result ''primary_sales_agent'') 255) JNull"
  "get (prepareInsertValues result) ''sales_status''
     = js_or (truncateString (get result ''sales_status'') 200) JNull"
  "get (prepareInsertValues result) ''customer_name''
     = js_or (truncateString (get result ''customer_name'') 255) JNull"
  "get (prepareInsertValues result) ''customer_location''
     = js_or (truncateString (get result ''customer_location'') 255) JNull"
  "get (prepareInsertValues result) ''budget_range''
     = js_or (truncateString (get result ''budget_range'') 200) JNull"
  "get (prepareInsertValues result) ''purchase_timeline''
     = js_or (truncateString (get result ''purchase_timeline'') 200) JNull"
  "get (prepareInsertValues result) ''decision_maker_status''
     = js_or (truncateString (get result ''decision_maker_status'') 200) JNull"
  "get (prepareInsertValues result) ''lead_source''
     = js_or (truncateString (get result ''lead_source'') 200) JNull"
  unfolding prepareInsertValues_def by (simp_all add: get_Cons)

lemma prepared_untruncated_columns:
  "get (prepareInsertValues result) ''remoteJid'' = get result ''remoteJid''"
  "get (prepareInsertValues result) ''ai_model_used''
     = js_or (get result ''aiModelUsed'')
         (js_or (get result ''ai_model_used'') (JStr ''gpt-3.5-turbo''))"
  unfolding prepareInsertValues_def by (simp_all add: get_Cons)

lemma truncated_nonempty_is_truthy:
  "s \<noteq> [] \<Longrightarrow> 3 \<le> L \<Longrightarrow> js_or (truncateString (JStr s) L) d = truncateString (JStr s) L"
  by (simp add: js_or_def truncateString_def)

lemma or_nonempty_string: "s \<noteq> [] \<Longrightarrow> js_or (JStr s) d = JStr s"
  by (simp add: js_or_def)

lemma or_empty_string: "js_or (JStr []) d = d"
  by (simp add: js_or_def)

lemma truncateString_empty: "truncateString (JStr []) L = JStr []"
  by (simp add: truncateString_def)

lemma truncateString_default:
  "truncateString (JStr ''No Product Mentioned'') 200 = JStr ''No Product Mentioned''"
  "truncateString (JStr ''Inquiry'') 100 = JStr ''Inquiry''"
  "truncateString (JStr ''Low'') 20 = JStr ''Low''"
  "truncateString (JStr ''Neutral'') 50 = JStr ''Neutral''"
  by (simp_all add: truncateString_def)

lemma truncated_columns_nonempty:
  "list_all (\<lambda>(col, L, d). 3 \<le> L \<and> (\<forall>result s. get result col = JStr s \<longrightarrow> s \<noteq> [] \<longrightarrow>
       get (prepareInsertValues result) col = truncateString (JStr s) L)) truncatedColumns"
  unfolding truncatedColumns_def list.pred_inject prod.case
  by (intro conjI)
     (simp_all add: prepared_defaulted_columns prepared_nullable_columns or_nonempty_string
        truncated_nonempty_is_truthy)

lemma truncated_columns_empty:
  "list_all (\<lambda>(col, L, d). \<forall>result. get result col = JStr [] \<longrightarrow>
       get (prepareInsertValues result) col = d) truncatedColumns"
  unfolding truncatedColumns_def list.pred_inject prod.case
  by (intro conjI)
     (simp_all add: prepared_defaulted_columns prepared_nullable_columns or_empty_string
        truncateString_empty truncateString_default)

lemma truncated_column_value:
  assumes "(col, L, d) \<in> set truncatedColumns" "get result col = JStr s"
  shows "3 \<le> L"
    and "get (prepareInsertValues result) col = (if s = [] then d else truncateString (JStr s) L)"
proof -
  have a: "case (col, L, d) of (col, L, d) \<Rightarrow> 3 \<le> L \<and> (\<forall>result s. get result col = JStr s \<longrightarrow>
       s \<noteq> [] \<longrightarrow> get (prepareInsertValues result) col = truncateString (JStr s) L)"
    using truncated_columns_nonempty assms(1) unfolding list_all_iff by (rule bspec)
  have b: "case (col, L, d) of (col, L, d) \<Rightarrow> \<forall>result. get result col = JStr [] \<longrightarrow>
       get (prepareInsertValues result) col = d"
    using truncated_columns_empty assms(1) unfolding list_all_iff by (rule bspec)
  show "3 \<le> L" using a by simp
  show "get (prepareInsertValues result) col = (if s = [] then d else truncateString (JStr s) L)"
    using a b assms(2) by simp
qed

lemma schema_columns:
  "schemaLimits
     = (''remoteJid'', 100) # map (\<lambda>(col, L, d). (col, L)) truncatedColumns
         @ [(''ai_model_used'', 50)]"
  by (simp add: schemaLimits_def truncatedColumns_def)

text \<open>
  Claim C8, as amended.  The columns with a maximum length are the fourteen
  \<open>VARCHAR\<close> columns of the table.  Twelve of them are passed through
  \<open>truncateString\<close>, each with the length of its column as the limit \<open>L\<close>: there a
  string longer than \<open>L\<close> is stored as its first \<open>L - 3\<close> characters followed by the
  marker '...', which has length exactly \<open>L\<close>; a non-empty string of length at most
  \<open>L\<close> is stored unchanged; and the empty string is stored as the default of the column,
  or as NULL where the column has none.  The two others are not truncated:
  \<open>remoteJid\<close> is stored as it is, whatever its length, and so is a non-empty
  \<open>aiModelUsed\<close> in \<open>ai_model_used\<close>.
\<close>

theorem long_text_is_truncated_with_marker:
  "schemaLimits
     = (''remoteJid'', 100) # map (\<lambda>(col, L, d). (col, L)) truncatedColumns
         @ [(''ai_model_used'', 50)]
   \<and> ((col, L, d) \<in> set truncatedColumns \<and> get result col = JStr s \<longrightarrow>
        get (prepareInsertValues result) col
          = (if s = [] then d
             else JStr (if length s > L then take (L - 3) s @ ''...'' else s))
        \<and> (length s > L \<longrightarrow> length (take (L - 3) s @ ''...'') = L))
   \<and> get (prepareInsertValues result) ''remoteJid'' = get result ''remoteJid''
   \<and> (get result ''aiModelUsed'' = JStr s \<and> s \<noteq> [] \<longrightarrow>
        get (prepareInsertValues result) ''ai_model_used'' = JStr s)"
proof (intro conjI impI)
  show "schemaLimits
     = (''remoteJid'', 100) # map (\<lambda>(col, L, d). (col, L)) truncatedColumns
         @ [(''ai_model_used'', 50)]"
    by (rule schema_columns)
next
  assume a: "(col, L, d) \<in> set truncatedColumns \<and> get result col = JStr s"
  then have col: "(col, L, d) \<in> set truncatedColumns" and s: "get result col = JStr s"
    by simp_all
  show "get (prepareInsertValues result) col
          = (if s = [] then d
             else JStr (if length s > L then take (L - 3) s @ ''...'' else s))"
    using truncated_column_value(2) [OF col s] by (simp add: truncateString_nonempty)
  assume "length s > L"
  with truncated_column_value(1) [OF col s]
  show "length (take (L - 3) s @ ''...'') = L" by simp
next
  show "get (prepareInsertValues result) ''remoteJid'' = get result ''remoteJid''"
    by (rule prepared_untruncated_columns)
next
  assume "get result ''aiModelUsed'' = JStr s \<and> s \<noteq> []"
  then show "get (prepareInsertValues result) ''ai_model_used'' = JStr s"
    by (simp add: prepared_untruncated_columns or_nonempty_string)
qed

text \<open>
  A 33-character urgency level, with the limit 20, and an empty customer name; the model
  name 'gpt-4o'.
\<close>

theorem long_text_witness:
  "(''urgency_level'', 20, JStr ''Low'') \<in> set truncatedColumns
   \<and> get [(''urgency_level'', JStr ''High, the customer needs it today'')] ''urgency_level''
       = JStr ''High, the customer needs it today''
   \<and> get (prepareInsertValues [(''urgency_level'', JStr ''High, the customer needs it today'')])
        ''urgency_level'' = JStr ''High, the custome...''
   \<and> length ''High, the custome...'' = 20
   \<and> (''customer_name'', 255, JNull) \<in> set truncatedColumns
   \<and> get (prepareInsertValues [(''customer_name'', JStr [])]) ''customer_name'' = JNull
   \<and> get (prepareInsertValues [(''aiModelUsed'', JStr ''gpt-4o'')]) ''ai_model_used''
       = JStr ''gpt-4o''"
proof -
  have a: "(''urgency_level'', 20, JStr ''Low'') \<in> set truncatedColumns"
    by (simp add: truncatedColumns_def)
  have b: "get [(''urgency_level'', JStr ''High, the customer needs it today'')] ''urgency_level''
       = JStr ''High, the customer needs it today''"
    by (simp add: get_def)
  have c: "(''customer_name'', 255, JNull) \<in> set truncatedColumns"
    by (simp add: truncatedColumns_def)
  have d: "get [(''customer_name'', JStr [])] ''customer_name'' = JStr []"
    by (simp add: get_def)
  have e: "get [(''aiModelUsed'', JStr ''gpt-4o'')] ''aiModelUsed'' = JStr ''gpt-4o''"
    by (simp add: get_def)
  note urgency = long_text_is_truncated_with_marker
      [of "''urgency_level''" 20 "JStr ''Low''"
          "[(''urgency_level'', JStr ''High, the customer needs it today'')]"
          "''High, the customer needs it today''",
       THEN conjunct2, THEN conjunct1, rule_format, OF conjI [OF a b]]
  note name = long_text_is_truncated_with_marker
      [of "''customer_name''" 255 JNull "[(''customer_name'', JStr [])]" "[]",
       THEN conjunct2, THEN conjunct1, rule_format, OF conjI [OF c d], THEN conjunct1]
  note model = long_text_is_truncated_with_marker
      [of _ _ _ "[(''aiModelUsed'', JStr ''gpt-4o'')]" "''gpt-4o''",
       THEN conjunct2, THEN conjunct2, THEN conjunct2, rule_format]
  show ?thesis
    using a b c urgency name model e by simp
qed

text \<open>
  Claim C8 as stated fails in two ways.  A value of length at most \<open>L\<close> is not always
  stored unchanged: the empty string is stored as NULL, or as the default of the column.
  And a value longer than the maximum length of its column is not always truncated: a
  model name of 51 characters is stored as it is in \<open>ai_model_used\<close>, a
  \<open>VARCHAR(50)\<close>, and an identifier of 101 characters in \<open>remoteJid\<close>, a
  \<open>VARCHAR(100)\<close>.
\<close>

theorem untruncated_columns_counterexample:
  "length ([] :: string) \<le> 255
   \<and> get (prepareInsertValues [(''customer_name'', JStr [])]) ''customer_name'' = JNull
   \<and> get (prepareInsertValues [(''product_category'', JStr [])]) ''product_category''
       = JStr ''No Product Mentioned''
   \<and> (''ai_model_used'', 50) \<in> set schemaLimits
   \<and> length (replicate 51 CHR ''m'') > 50
   \<and> get (prepareInsertValues [(''aiModelUsed'', JStr (replicate 51 CHR ''m''))]) ''ai_model_used''
       = JStr (replicate 51 CHR ''m'')
   \<and> (''remoteJid'', 100) \<in> set schemaLimits
   \<and> length (replicate 101 CHR ''9'') > 100
   \<and> get (prepareInsertValues [(''remoteJid'', JStr (replicate 101 CHR ''9''))]) ''remoteJid''
       = JStr (replicate 101 CHR ''9'')"
  by (simp add: prepared_defaulted_columns prepared_nullable_columns
      prepared_untruncated_columns get_Cons get_Nil js_or_def truncateString_def schemaLimits_def)


subsection \<open>Bulk insert of analysis results\<close>

lemma failure_simps: "\<not> failure None" "failure (Some e)"
  by (simp_all add: failure_def)

lemma length_insertAnswers: "length (insertAnswers store rows db) = length rows"
  by (induction rows arbitrary: db) simp_all

lemma insertRows_Cons_ok:
  "fst (clientQuery store (insertOf r) db) = None \<Longrightarrow>
   insertRows store (r # rows) sc ec errs issued db =
     insertRows store rows (Suc sc) ec errs (issued @ [insertOf r])
       (snd (clientQuery store (insertOf r) db))"
  by (simp add: insertOf_def Let_def)

lemma insertRows_Cons_error:
  "fst (clientQuery store (insertOf r) db) = Some e \<Longrightarrow>
   insertRows store (r # rows) sc ec errs issued db =
     (if 50 \<le> ec
      then (Inl tooManyErrors, issued @ [insertOf r], snd (clientQuery store (insertOf r) db))
      else insertRows store rows sc (Suc ec)
             (errs @ [RowError (get r ''remoteJid'') (message e) (code e)])
             (issued @ [insertOf r]) (snd (clientQuery store (insertOf r) db)))"
  by (simp add: insertOf_def Let_def tooManyErrors_def)

lemma insertRows_commit:
  "errorCount + length (filter failure (insertAnswers store rows db)) \<le> 50 \<Longrightarrow>
   insertRows store rows successCount errorCount errs issued db =
     (Inr (successCount + length (filter (\<lambda>a. \<not> failure a) (insertAnswers store rows db)),
           errorCount + length (filter failure (insertAnswers store rows db)),
           errs @ rowErrors rows (insertAnswers store rows db)),
      issued @ map insertOf rows, afterInserts store rows db)"
proof (induction rows arbitrary: successCount errorCount errs issued db)
  case Nil
  then show ?case by simp
next
  case (Cons r rows)
  show ?case
  proof (cases "fst (clientQuery store (insertOf r) db)")
    case None
    then have "errorCount
        + length (filter failure (insertAnswers store rows (snd (clientQuery store (insertOf r) db))))
        \<le> 50"
      using Cons.prems by (simp add: failure_simps)
    from Cons.IH [OF this] None show ?thesis
      by (simp add: insertRows_Cons_ok failure_simps del: insertRows.simps)
  next
    case (Some e)
    then have le: "Suc errorCount
        + length (filter failure (insertAnswers store rows (snd (clientQuery store (insertOf r) db))))
        \<le> 50"
      using Cons.prems by (simp add: failure_simps)
    then have "\<not> 50 \<le> errorCount" by simp
    with Cons.IH [OF le] Some show ?thesis
      by (simp add: insertRows_Cons_error failure_simps del: insertRows.simps)
  qed
qed

lemma insertRows_abort:
  "errorCount \<le> 50 \<Longrightarrow>
   errorCount + length (filter failure (insertAnswers store rows db)) > 50 \<Longrightarrow>
   \<exists>k < length rows.
     insertRows store rows successCount errorCount errs issued db =
       (Inl tooManyErrors, issued @ map insertOf (take (Suc k) rows),
        afterInserts store (take (Suc k) rows) db)
     \<and> failure (insertAnswers store rows db ! k)
     \<and> errorCount + length (filter failure (take (Suc k) (insertAnswers store rows db))) = 51"
proof (induction rows arbitrary: successCount errorCount errs issued db)
  case Nil
  then show ?case by simp
next
  case (Cons r rows)
  let ?db = "snd (clientQuery store (insertOf r) db)"
  show ?case
  proof (cases "fst (clientQuery store (insertOf r) db)")
    case None
    then have "errorCount + length (filter failure (insertAnswers store rows ?db)) > 50"
      using Cons.prems by (simp add: failure_simps)
    from Cons.IH [OF Cons.prems(1) this, of "Suc successCount" errs "issued @ [insertOf r]"]
    obtain k where k: "k < length rows"
      "insertRows store rows (Suc successCount) errorCount errs (issued @ [insertOf r]) ?db =
         (Inl tooManyErrors, (issued @ [insertOf r]) @ map insertOf (take (Suc k) rows),
          afterInserts store (take (Suc k) rows) ?db)"
      "failure (insertAnswers store rows ?db ! k)"
      "errorCount + length (filter failure (take (Suc k) (insertAnswers store rows ?db))) = 51"
      by blast
    show ?thesis
      by (rule exI [of _ "Suc k"])
         (use k None in \<open>simp add: insertRows_Cons_ok failure_simps del: insertRows.simps\<close>)
  next
    case (Some e)
    show ?thesis
    proof (cases "errorCount = 50")
      case True
      show ?thesis
        by (rule exI [of _ 0])
           (use True Some in \<open>simp add: insertRows_Cons_error failure_simps del: insertRows.simps\<close>)
    next
      case False
      then have le: "Suc errorCount \<le> 50" using Cons.prems(1) by simp
      have gt: "Suc errorCount + length (filter failure (insertAnswers store rows ?db)) > 50"
        using Cons.prems(2) Some by (simp add: failure_simps)
      from Cons.IH [OF le gt, of successCount
          "errs @ [RowError (get r ''remoteJid'') (message e) (code e)]" "issued @ [insertOf r]"]
      obtain k where k: "k < length rows"
        "insertRows store rows successCount (Suc errorCount)
           (errs @ [RowError (get r ''remoteJid'') (message e) (code e)]) (issued @ [insertOf r]) ?db =
           (Inl tooManyErrors, (issued @ [insertOf r]) @ map insertOf (take (Suc k) rows),
            afterInserts store (take (Suc k) rows) ?db)"
        "failure (insertAnswers store rows ?db ! k)"
        "Suc errorCount + length (filter failure (take (Suc k) (insertAnswers store rows ?db))) = 51"
        by blast
      have "\<not> 50 \<le> errorCount" using le by simp
      then show ?thesis
        by (intro exI [of _ "Suc k"])
           (use k Some in \<open>simp add: insertRows_Cons_error failure_simps del: insertRows.simps\<close>)
    qed
  qed
qed




lemma bulkInsert_commit:
  assumes "rows \<noteq> []" "getClient store db = (None, db0)"
    "clientQuery store BEGIN db0 = (None, db1)"
    "length (filter failure (insertAnswers store rows db1)) \<le> 50"
    "clientQuery store COMMIT (afterInserts store rows db1) = (None, db3)"
  shows "bulkInsertAnalysisResults store (Some rows) db =
     (Inr \<lparr>success = length (filter (\<lambda>a. \<not> failure a) (insertAnswers store rows db1)),
           failed = length (filter failure (insertAnswers store rows db1)),
           errors = rowErrors rows (insertAnswers store rows db1)\<rparr>,
      BEGIN # map insertOf rows @ [COMMIT], db3)"
proof -
  have "0 + length (filter failure (insertAnswers store rows db1)) \<le> 50"
    using assms(4) by simp
  from insertRows_commit [OF this, of 0 "[]" "[BEGIN]"] show ?thesis
    using assms(1,2,3,5)
    by (simp add: bulkInsertAnalysisResults_def bulkInsertTry_def)
qed

lemma bulkInsert_abort:
  assumes "rows \<noteq> []" "getClient store db = (None, db0)"
    "clientQuery store BEGIN db0 = (None, db1)"
    "length (filter failure (insertAnswers store rows db1)) > 50"
  shows "\<exists>k < length rows.
     failure (insertAnswers store rows db1 ! k)
     \<and> length (filter failure (take (Suc k) (insertAnswers store rows db1))) = 51
     \<and> bulkInsertAnalysisResults store (Some rows) db =
         (case fst (clientQuery store ROLLBACK (afterInserts store (take (Suc k) rows) db1)) of
            None \<Rightarrow> Inr \<lparr>success = 0, failed = length rows,
                         errors = [CallError ''Too many insertion errors'']\<rparr>
          | Some e \<Rightarrow> Inl e,
          BEGIN # map insertOf (take (Suc k) rows) @ [ROLLBACK],
          snd (clientQuery store ROLLBACK (afterInserts store (take (Suc k) rows) db1)))"
proof -
  have "0 + length (filter failure (insertAnswers store rows db1)) > 50"
    using assms(4) by simp
  from insertRows_abort [OF _ this, of 0 "[]" "[BEGIN]"]
  obtain k where k: "k < length rows"
    "insertRows store rows 0 0 [] [BEGIN] db1 =
       (Inl tooManyErrors, [BEGIN] @ map insertOf (take (Suc k) rows),
        afterInserts store (take (Suc k) rows) db1)"
    "failure (insertAnswers store rows db1 ! k)"
    "length (filter failure (take (Suc k) (insertAnswers store rows db1))) = 51"
    by auto
  show ?thesis
    by (rule exI [of _ k])
       (use k assms(1-3) in \<open>simp add: bulkInsertAnalysisResults_def bulkInsertTry_def
          tooManyErrors_def split: prod.splits option.splits\<close>)
qed


lemma maxRun_le: "maxRun P xs cur \<le> cur + length (filter P xs)"
proof (induction xs arbitrary: cur)
  case Nil
  then show ?case by simp
next
  case (Cons a xs)
  show ?case using Cons.IH [of "Suc cur"] Cons.IH [of 0] by auto
qed

lemma maxRun_all: "list_all P xs \<Longrightarrow> maxRun P xs cur = cur + length xs"
  by (induction xs arbitrary: cur) simp_all

lemma pg_query: "clientQuery (postgres violation) = pgQuery violation"
  "getClient (postgres violation) s = (None, s)"
  by (simp_all add: postgres_def)

lemma pg_begin:
  "clientQuery (postgres violation) BEGIN (idle table) = (None, inTransaction table)"
  by (simp add: pg_query idle_def inTransaction_def)

lemma pg_rollback:
  "clientQuery (postgres violation) ROLLBACK s = (None, idle (committed s))"
  by (simp add: pg_query idle_def)

lemma pg_aborted:
  "transaction s = Aborted \<Longrightarrow>
   insertAnswers (postgres violation) rows s = replicate (length rows) (Some abortedError)
   \<and> afterInserts (postgres violation) rows s = s"
  by (induction rows) (simp_all add: pg_query insertOf_def)


lemma pg_rejected:
  "\<not> list_all (\<lambda>r. violation (prepareInsertValues r) = None) rows \<Longrightarrow>
   transaction s = Active working \<Longrightarrow>
   afterInserts (postgres violation) rows s = s\<lparr>transaction := Aborted\<rparr>"
proof (induction rows arbitrary: s working)
  case Nil
  then show ?case by simp
next
  case (Cons r rows)
  show ?case
  proof (cases "violation (prepareInsertValues r)")
    case None
    then have rest: "\<not> list_all (\<lambda>r. violation (prepareInsertValues r) = None) rows"
      using Cons.prems(1) by simp
    have step: "clientQuery (postgres violation) (insertOf r) s
        = (None, s\<lparr>transaction := Active (storeRow r working)\<rparr>)"
      using None Cons.prems(2) by (simp add: pg_query insertOf_def storeRow_def)
    have "transaction (s\<lparr>transaction := Active (storeRow r working)\<rparr>)
        = Active (storeRow r working)"
      by simp
    from Cons.IH [OF rest this] show ?thesis
      by (simp add: step)
  next
    case (Some e)
    have step: "clientQuery (postgres violation) (insertOf r) s = (Some e, s\<lparr>transaction := Aborted\<rparr>)"
      using Some Cons.prems(2) by (simp add: pg_query insertOf_def)
    have "transaction (s\<lparr>transaction := Aborted\<rparr>) = Aborted" by simp
    from pg_aborted [OF this, of violation rows] show ?thesis
      by (simp add: step)
  qed
qed

lemma pg_in_transaction:
  "transaction s \<noteq> Idle \<Longrightarrow>
   committed (afterInserts (postgres violation) rows s) = committed s
   \<and> transaction (afterInserts (postgres violation) rows s) \<noteq> Idle"
proof (induction rows arbitrary: s)
  case Nil
  then show ?case by simp
next
  case (Cons r rows)
  let ?s = "snd (clientQuery (postgres violation) (insertOf r) s)"
  have "transaction ?s \<noteq> Idle \<and> committed ?s = committed s"
    using Cons.prems
    by (cases "transaction s"; cases "violation (prepareInsertValues r)")
       (simp_all add: pg_query insertOf_def)
  with Cons.IH [of ?s] show ?case by simp
qed

lemma pg_failures_are_one_run:
  "transaction s \<noteq> Idle \<Longrightarrow>
   length (filter failure (insertAnswers (postgres violation) rows s))
     = maxRun failure (insertAnswers (postgres violation) rows s) 0"
proof (induction rows arbitrary: s)
  case Nil
  then show ?case by simp
next
  case (Cons r rows)
  show ?case
  proof (cases "fst (clientQuery (postgres violation) (insertOf r) s)")
    case None
    then have "transaction (snd (clientQuery (postgres violation) (insertOf r) s)) \<noteq> Idle"
      using Cons.prems
      by (cases "transaction s"; cases "violation (prepareInsertValues r)")
         (simp_all add: pg_query insertOf_def)
    from Cons.IH [OF this] None show ?thesis
      by (simp add: failure_simps)
  next
    case (Some e)
    then have ab: "transaction (snd (clientQuery (postgres violation) (insertOf r) s)) = Aborted"
      using Cons.prems
      by (cases "transaction s"; cases "violation (prepareInsertValues r)")
         (simp_all add: pg_query insertOf_def)
    have all: "list_all failure (replicate (length rows) (Some abortedError))"
      by (simp add: list_all_iff failure_simps)
    then have "filter failure (replicate (length rows) (Some abortedError))
        = replicate (length rows) (Some abortedError)"
      by (simp add: failure_simps)
    then show ?thesis
      using Some pg_aborted [OF ab, of violation rows] maxRun_all [OF all, of "Suc 0"]
      by (simp add: failure_simps)
  qed
qed



lemma pg_commit:
  "clientQuery (postgres violation) COMMIT s
     = (None, idle (case transaction s of Active working \<Rightarrow> working | _ \<Rightarrow> committed s))"
  by (cases "transaction s") (simp_all add: pg_query idle_def)

lemma pg_session_facts:
  "transaction (inTransaction table) = Active table"
  "committed (inTransaction table) = table"
  "transaction (inTransaction table) \<noteq> Idle"
  by (simp_all add: inTransaction_def)


lemma pg_rejected_call:
  assumes "\<not> list_all (\<lambda>r. violation (prepareInsertValues r) = None) rows"
  shows "snd (snd (bulkInsertAnalysisResults (postgres violation) (Some rows) (idle table)))
     = idle table"
proof -
  let ?answers = "insertAnswers (postgres violation) rows (inTransaction table)"
  have rows: "rows \<noteq> []" using assms by auto
  show ?thesis
  proof (cases "length (filter failure ?answers) \<le> 50")
    case True
    have after: "afterInserts (postgres violation) rows (inTransaction table)
        = (inTransaction table)\<lparr>transaction := Aborted\<rparr>"
      by (rule pg_rejected [OF assms pg_session_facts(1)])
    have commit: "clientQuery (postgres violation) COMMIT
          (afterInserts (postgres violation) rows (inTransaction table))
        = (None, idle table)"
      by (simp add: pg_commit after pg_session_facts)
    from bulkInsert_commit [OF rows pg_query(2) pg_begin True commit]
    show ?thesis by simp
  next
    case False
    then have "length (filter failure ?answers) > 50" by simp
    from bulkInsert_abort [OF rows pg_query(2) pg_begin this]
    obtain k where k: "bulkInsertAnalysisResults (postgres violation) (Some rows) (idle table) =
         (case fst (clientQuery (postgres violation) ROLLBACK
                 (afterInserts (postgres violation) (take (Suc k) rows) (inTransaction table))) of
            None \<Rightarrow> Inr \<lparr>success = 0, failed = length rows,
                         errors = [CallError ''Too many insertion errors'']\<rparr>
          | Some e \<Rightarrow> Inl e,
          BEGIN # map insertOf (take (Suc k) rows) @ [ROLLBACK],
          snd (clientQuery (postgres violation) ROLLBACK
                 (afterInserts (postgres violation) (take (Suc k) rows) (inTransaction table))))"
      by blast
    show ?thesis
      using pg_in_transaction [OF pg_session_facts(3), of violation "take (Suc k) rows" table]
      by (simp add: k pg_rollback pg_session_facts)
  qed
qed


lemma notNull_rows:
  "notNull (prepareInsertValues goodRow) = None"
  "notNull (prepareInsertValues badRow) = Some notNullViolation"
  "get goodRow ''remoteJid'' = JStr ''c1''"
  "get badRow ''remoteJid'' = JNull"
  by (simp_all add: notNull_def prepared_untruncated_columns goodRow_def badRow_def get_Cons)



lemma length_filter_take_le: "length (filter P (take n xs)) \<le> n"
proof -
  have "length (filter P (take n xs)) \<le> length (take n xs)" by (rule length_filter_le)
  then show ?thesis by simp
qed

text \<open>
  Claim C9.  A call that has obtained its client and begun its transaction aborts as
  soon as the error cap is exceeded, whatever the store: if the inserts of the batch
  meet a run of more than 50 consecutive failures, the loop stops at a failing insert,
  the 51st failure of the call, no later row is attempted, ROLLBACK is sent instead of
  COMMIT, and the call reports no per-row error but \<open>success = 0\<close>, \<open>failed\<close> the size
  of the batch and the single error 'Too many insertion errors' (or rejects with the
  error of the ROLLBACK, if that throws).  The counter of the loop counts every failure
  of the call; on a PostgreSQL session the failures of a call are consecutive, since a
  failed insert aborts the transaction and every later insert fails, so there the number
  of failures is the length of the longest run, and a call with a run of at most 50
  is not aborted: every row is attempted, COMMIT is sent and the failures are reported
  row by row.
\<close>

theorem error_cap_aborts_the_call:
  "(rows \<noteq> [] \<and> getClient store db = (None, db0) \<and> clientQuery store BEGIN db0 = (None, db1)
      \<and> maxRun failure (insertAnswers store rows db1) 0 > 50 \<longrightarrow>
      (\<exists>k < length rows.
         failure (insertAnswers store rows db1 ! k)
         \<and> length (filter failure (take (Suc k) (insertAnswers store rows db1))) = 51
         \<and> bulkInsertAnalysisResults store (Some rows) db =
             (case fst (clientQuery store ROLLBACK (afterInserts store (take (Suc k) rows) db1)) of
                None \<Rightarrow> Inr \<lparr>success = 0, failed = length rows,
                             errors = [CallError ''Too many insertion errors'']\<rparr>
              | Some e \<Rightarrow> Inl e,
              BEGIN # map insertOf (take (Suc k) rows) @ [ROLLBACK],
              snd (clientQuery store ROLLBACK (afterInserts store (take (Suc k) rows) db1)))))
   \<and> length (filter failure (insertAnswers (postgres violation) rows (inTransaction table)))
       = maxRun failure (insertAnswers (postgres violation) rows (inTransaction table)) 0
   \<and> (rows \<noteq> []
        \<and> maxRun failure (insertAnswers (postgres violation) rows (inTransaction table)) 0 \<le> 50
      \<longrightarrow>
        fst (bulkInsertAnalysisResults (postgres violation) (Some rows) (idle table)) =
          Inr \<lparr>success = length (filter (\<lambda>a. \<not> failure a)
                            (insertAnswers (postgres violation) rows (inTransaction table))),
               failed = maxRun failure
                          (insertAnswers (postgres violation) rows (inTransaction table)) 0,
               errors = rowErrors rows
                          (insertAnswers (postgres violation) rows (inTransaction table))\<rparr>
        \<and> fst (snd (bulkInsertAnalysisResults (postgres violation) (Some rows) (idle table)))
            = BEGIN # map insertOf rows @ [COMMIT])"
proof (intro conjI impI)
  assume a: "rows \<noteq> [] \<and> getClient store db = (None, db0)
      \<and> clientQuery store BEGIN db0 = (None, db1)
      \<and> maxRun failure (insertAnswers store rows db1) 0 > 50"
  then have many: "length (filter failure (insertAnswers store rows db1)) > 50"
    using maxRun_le [of failure "insertAnswers store rows db1" 0] by simp
  from a have r: "rows \<noteq> []" and c: "getClient store db = (None, db0)"
    and b: "clientQuery store BEGIN db0 = (None, db1)"
    by simp_all
  show "\<exists>k < length rows.
         failure (insertAnswers store rows db1 ! k)
         \<and> length (filter failure (take (Suc k) (insertAnswers store rows db1))) = 51
         \<and> bulkInsertAnalysisResults store (Some rows) db =
             (case fst (clientQuery store ROLLBACK (afterInserts store (take (Suc k) rows) db1)) of
                None \<Rightarrow> Inr \<lparr>success = 0, failed = length rows,
                             errors = [CallError ''Too many insertion errors'']\<rparr>
              | Some e \<Rightarrow> Inl e,
              BEGIN # map insertOf (take (Suc k) rows) @ [ROLLBACK],
              snd (clientQuery store ROLLBACK (afterInserts store (take (Suc k) rows) db1)))"
    by (rule bulkInsert_abort [OF r c b many])
next
  show run: "length (filter failure (insertAnswers (postgres violation) rows (inTransaction table)))
       = maxRun failure (insertAnswers (postgres violation) rows (inTransaction table)) 0"
    by (rule pg_failures_are_one_run [OF pg_session_facts(3)])
next
  assume a: "rows \<noteq> []
        \<and> maxRun failure (insertAnswers (postgres violation) rows (inTransaction table)) 0 \<le> 50"
  have run: "length (filter failure (insertAnswers (postgres violation) rows (inTransaction table)))
       = maxRun failure (insertAnswers (postgres violation) rows (inTransaction table)) 0"
    by (rule pg_failures_are_one_run [OF pg_session_facts(3)])
  from a have r: "rows \<noteq> []" by simp
  from a run have few:
    "length (filter failure (insertAnswers (postgres violation) rows (inTransaction table))) \<le> 50"
    by simp
  note call = bulkInsert_commit [OF r pg_query(2) pg_begin few pg_commit]
  show "fst (bulkInsertAnalysisResults (postgres violation) (Some rows) (idle table)) =
          Inr \<lparr>success = length (filter (\<lambda>a. \<not> failure a)
                            (insertAnswers (postgres violation) rows (inTransaction table))),
               failed = maxRun failure
                          (insertAnswers (postgres violation) rows (inTransaction table)) 0,
               errors = rowErrors rows
                          (insertAnswers (postgres violation) rows (inTransaction table))\<rparr>"
    by (simp add: call run)
  show "fst (snd (bulkInsertAnalysisResults (postgres violation) (Some rows) (idle table)))
            = BEGIN # map insertOf rows @ [COMMIT]"
    by (simp add: call)
qed

text \<open>
  On a server that enforces the not-null constraint of \<open>remoteJid\<close>: a batch of 51 rows
  of which the first violates the constraint, so that all 51 inserts fail; and a batch of
  two rows of which the first violates it.
\<close>

theorem error_cap_witness:
  "badRow # replicate 50 goodRow \<noteq> []
   \<and> getClient (postgres notNull) (idle Map.empty) = (None, idle Map.empty)
   \<and> clientQuery (postgres notNull) BEGIN (idle Map.empty) = (None, inTransaction Map.empty)
   \<and> maxRun failure
       (insertAnswers (postgres notNull) (badRow # replicate 50 goodRow) (inTransaction Map.empty)) 0
       = 51
   \<and> bulkInsertAnalysisResults (postgres notNull) (Some (badRow # replicate 50 goodRow))
       (idle Map.empty)
     = (Inr \<lparr>success = 0, failed = 51, errors = [CallError ''Too many insertion errors'']\<rparr>,
        BEGIN # map insertOf (badRow # replicate 50 goodRow) @ [ROLLBACK], idle Map.empty)
   \<and> maxRun failure
       (insertAnswers (postgres notNull) [badRow, goodRow] (inTransaction Map.empty)) 0 = 2
   \<and> bulkInsertAnalysisResults (postgres notNull) (Some [badRow, goodRow]) (idle Map.empty)
     = (Inr \<lparr>success = 0, failed = 2,
             errors = [RowError JNull
                         ''null value in column remoteJid violates not-null constraint''
                         (Some ''23502''),
                       RowError (JStr ''c1'')
                         ''current transaction is aborted, commands ignored until end of transaction block''
                         (Some ''25P02'')]\<rparr>,
        [BEGIN, insertOf badRow, insertOf goodRow, COMMIT], idle Map.empty)"
proof -
  define rows where "rows = badRow # replicate 50 goodRow"
  define answers where
    "answers = insertAnswers (postgres notNull) rows (inTransaction Map.empty)"
  have first: "clientQuery (postgres notNull) (insertOf badRow) (inTransaction Map.empty)
      = (Some notNullViolation, \<lparr>committed = Map.empty, transaction = Aborted\<rparr>)"
    by (simp add: pg_query insertOf_def notNull_rows inTransaction_def)
  have ab: "transaction \<lparr>committed = Map.empty, transaction = Aborted\<rparr> = Aborted" by simp
  note rest = pg_aborted [OF ab, of notNull]
  have answers: "answers = Some notNullViolation # replicate 50 (Some abortedError)"
    by (simp add: answers_def rows_def first rest)
  have after: "afterInserts (postgres notNull) (take n rows) (inTransaction Map.empty)
      = (if n = 0 then inTransaction Map.empty
         else \<lparr>committed = Map.empty, transaction = Aborted\<rparr>)" for n
    by (cases n) (simp_all add: rows_def first rest)
  have after_all: "afterInserts (postgres notNull) rows (inTransaction Map.empty)
      = \<lparr>committed = Map.empty, transaction = Aborted\<rparr>"
    using after [of "length rows"] by (simp add: rows_def)
  have all: "list_all failure (replicate 50 (Some abortedError))"
    by (simp add: list_all_iff failure_simps)
  have run: "maxRun failure answers 0 = 51"
    by (simp add: answers failure_simps maxRun_all [OF all])
  have r: "rows \<noteq> []" by (simp add: rows_def)
  have len: "length rows = 51" by (simp add: rows_def)
  have hyp: "rows \<noteq> [] \<and> getClient (postgres notNull) (idle Map.empty) = (None, idle Map.empty)
      \<and> clientQuery (postgres notNull) BEGIN (idle Map.empty) = (None, inTransaction Map.empty)
      \<and> maxRun failure (insertAnswers (postgres notNull) rows (inTransaction Map.empty)) 0 > 50"
    using r run by (simp add: pg_query(2) pg_begin answers_def)
  from error_cap_aborts_the_call [of rows "postgres notNull" "idle Map.empty" "idle Map.empty"
      "inTransaction Map.empty", THEN conjunct1, rule_format, OF hyp]
  obtain k where k: "k < length rows"
    "length (filter failure (take (Suc k) (insertAnswers (postgres notNull) rows
        (inTransaction Map.empty)))) = 51"
    "bulkInsertAnalysisResults (postgres notNull) (Some rows) (idle Map.empty) =
       (case fst (clientQuery (postgres notNull) ROLLBACK
               (afterInserts (postgres notNull) (take (Suc k) rows) (inTransaction Map.empty))) of
          None \<Rightarrow> Inr \<lparr>success = 0, failed = length rows,
                       errors = [CallError ''Too many insertion errors'']\<rparr>
        | Some e \<Rightarrow> Inl e,
        BEGIN # map insertOf (take (Suc k) rows) @ [ROLLBACK],
        snd (clientQuery (postgres notNull) ROLLBACK
               (afterInserts (postgres notNull) (take (Suc k) rows) (inTransaction Map.empty))))"
    by blast
  have "51 \<le> Suc k"
    using length_filter_take_le [of failure "Suc k"
        "insertAnswers (postgres notNull) rows (inTransaction Map.empty)"] k(2)
    by simp
  with k(1) len have k50: "Suc k = length rows" by simp
  have aborts: "bulkInsertAnalysisResults (postgres notNull) (Some rows) (idle Map.empty)
     = (Inr \<lparr>success = 0, failed = 51, errors = [CallError ''Too many insertion errors'']\<rparr>,
        BEGIN # map insertOf rows @ [ROLLBACK], idle Map.empty)"
    unfolding k(3) k50 by (simp add: pg_rollback after_all len)
  have two: "insertAnswers (postgres notNull) [badRow, goodRow] (inTransaction Map.empty)
      = [Some notNullViolation, Some abortedError]"
    by (simp add: first) (simp add: pg_query insertOf_def)
  have run2: "maxRun failure
      (insertAnswers (postgres notNull) [badRow, goodRow] (inTransaction Map.empty)) 0 = 2"
    unfolding two by (simp add: failure_simps)
  have hyp2: "[badRow, goodRow] \<noteq> []
      \<and> maxRun failure
          (insertAnswers (postgres notNull) [badRow, goodRow] (inTransaction Map.empty)) 0 \<le> 50"
    by (simp add: run2)
  note commits = error_cap_aborts_the_call [of "[badRow, goodRow]" _ _ _ _ notNull Map.empty,
      THEN conjunct2, THEN conjunct2, rule_format, OF hyp2, unfolded run2 two]
  have third: "snd (snd (bulkInsertAnalysisResults (postgres notNull) (Some [badRow, goodRow])
      (idle Map.empty))) = idle Map.empty"
    by (rule pg_rejected_call) (simp add: notNull_rows)
  have report: "bulkInsertAnalysisResults (postgres notNull) (Some [badRow, goodRow]) (idle Map.empty)
     = (Inr \<lparr>success = 0, failed = 2,
             errors = [RowError JNull
                         ''null value in column remoteJid violates not-null constraint''
                         (Some ''23502''),
                       RowError (JStr ''c1'')
                         ''current transaction is aborted, commands ignored until end of transaction block''
                         (Some ''25P02'')]\<rparr>,
        [BEGIN, insertOf badRow, insertOf goodRow, COMMIT], idle Map.empty)"
    using commits third
    by (simp add: prod_eq_iff two run2 failure_simps notNull_rows notNullViolation_def
        abortedError_def)
  show ?thesis
    using r run aborts run2 report
    by (simp add: rows_def [symmetric] answers_def [symmetric] pg_query(2) pg_begin)
qed


subsection \<open>Writes to the conversation cache\<close>

lemma cacheParams_text: "get (cacheParams conv t @ extra) ''conversation_text'' = JStr t"
  by (simp add: cacheParams_def get_def)

lemma upsert_invariant:
  "cacheInvariant tbl \<Longrightarrow> trim t \<noteq> [] \<Longrightarrow>
   cacheInvariant (upsertCache now jid (cacheParams conv t) tbl)"
  by (simp add: cacheInvariant_def upsertCache_def cacheParams_text nonBlankText_def)

lemma cacheRows_invariant:
  "cacheRows client now convs tbl = Inr tbl' \<Longrightarrow> cacheInvariant tbl \<Longrightarrow> cacheInvariant tbl'"
proof (induction convs arbitrary: tbl)
  case Nil
  then show ?case by simp
next
  case (Cons conv rest)
  show ?case
  proof (cases "hasTranscript conv")
    case False
    then have "cacheRows client now (conv # rest) tbl = cacheRows client now rest tbl"
      by (auto simp: hasTranscript_def split: option.splits)
    with Cons show ?thesis by simp
  next
    case True
    then obtain t where t: "conversation conv = Some t" "t \<noteq> []" "trim t \<noteq> []"
      by (auto simp: hasTranscript_def split: option.splits)
    with Cons.prems(1) have
      "cacheRows client now rest (upsertCache now (remoteJid conv) (cacheParams conv t) tbl) = Inr tbl'"
      by (simp add: Let_def split: option.splits)
    from Cons.IH [OF this upsert_invariant [OF Cons.prems(2) t(3)]] show ?thesis .
  qed
qed

lemma cacheRows_untouched:
  "cacheRows client now convs tbl = Inr tbl' \<Longrightarrow>
   \<forall>c \<in> set convs. remoteJid c = jid \<longrightarrow> \<not> hasTranscript c \<Longrightarrow> tbl' jid = tbl jid"
proof (induction convs arbitrary: tbl)
  case Nil
  then show ?case by simp
next
  case (Cons conv rest)
  show ?case
  proof (cases "hasTranscript conv")
    case False
    then have "cacheRows client now (conv # rest) tbl = cacheRows client now rest tbl"
      by (auto simp: hasTranscript_def split: option.splits)
    with Cons show ?thesis by simp
  next
    case True
    then obtain t where t: "conversation conv = Some t" "t \<noteq> []" "trim t \<noteq> []"
      by (auto simp: hasTranscript_def split: option.splits)
    have other: "remoteJid conv \<noteq> jid" using True Cons.prems(2) by auto
    from t Cons.prems(1) have
      "cacheRows client now rest (upsertCache now (remoteJid conv) (cacheParams conv t) tbl) = Inr tbl'"
      by (simp add: Let_def split: option.splits)
    from Cons.IH [OF this] Cons.prems(2) other show ?thesis
      by (simp add: upsertCache_def)
  qed
qed

lemma cacheRows_closed:
  "cacheRows client now convs tbl =
     (case cacheRows client now convs Map.empty of Inl e \<Rightarrow> Inl e | Inr m \<Rightarrow> Inr (tbl ++ m))"
proof (induction convs arbitrary: tbl)
  case Nil
  then show ?case by simp
next
  case (Cons conv rest)
  show ?case
  proof (cases "hasTranscript conv")
    case False
    then have skip: "\<And>tbl. cacheRows client now (conv # rest) tbl = cacheRows client now rest tbl"
      by (auto simp: hasTranscript_def split: option.splits)
    show ?thesis unfolding skip by (rule Cons.IH)
  next
    case True
    then obtain t where t: "conversation conv = Some t" "t \<noteq> []" "trim t \<noteq> []"
      by (auto simp: hasTranscript_def split: option.splits)
    show ?thesis
    proof (cases "query_error client (INSERT_CACHE (cacheParams conv t))")
      case (Some e)
      then show ?thesis using t by (simp add: Let_def)
    next
      case None
      define row where
        "row = cacheParams conv t @ [(''processed_at'', JDate now), (''UPDATED_AT'', JDate now)]"
      have step: "\<And>tbl. cacheRows client now (conv # rest) tbl
          = cacheRows client now rest (tbl(remoteJid conv \<mapsto> row))"
        using t None by (simp add: Let_def upsertCache_def row_def)
      have join: "\<And>m. tbl ++ ([remoteJid conv \<mapsto> row] ++ m) = tbl(remoteJid conv \<mapsto> row) ++ m"
        by (simp add: map_add_assoc [symmetric])
      show ?thesis
        unfolding step
        by (subst Cons.IH, subst (2) Cons.IH) (simp add: join split: sum.splits)
    qed
  qed
qed

lemma cacheRows_same_keys:
  "rel_sum (=) (\<lambda>m m'. dom m = dom m')
     (cacheRows client now convs Map.empty) (cacheRows client now' convs Map.empty)"
proof -
  have "dom t = dom t' \<Longrightarrow>
    rel_sum (=) (\<lambda>m m'. dom m = dom m') (cacheRows client now convs t) (cacheRows client now' convs t')"
    for t t' :: cache_table
  proof (induction convs arbitrary: t t')
    case Nil
    then show ?case by simp
  next
    case (Cons conv rest)
    show ?case
    proof (cases "conversation conv")
      case None
      then show ?thesis using Cons by simp
    next
      case (Some tr)
      have "dom (upsertCache now (remoteJid conv) (cacheParams conv tr) t)
          = dom (upsertCache now' (remoteJid conv) (cacheParams conv tr) t')"
        using Cons.prems by (simp add: upsertCache_def)
      from Cons.IH [OF this] Cons.IH [OF Cons.prems] Some show ?thesis
        by (simp add: Let_def split: option.splits)
    qed
  qed
  then show ?thesis by simp
qed


lemma save_table:
  "snd (saveConversationsToCache client now convs cache) =
    (case convs of
       None \<Rightarrow> cache
     | Some cs \<Rightarrow>
         if cs \<noteq> [] \<and> connect_error client = None \<and> query_error client BEGIN = None
            \<and> query_error client COMMIT = None
         then (case cacheRows client now cs cache of Inr tbl \<Rightarrow> tbl | Inl e \<Rightarrow> cache)
         else cache)"
  by (auto simp: saveConversationsToCache_def saveToCacheTry_def split: option.splits sum.splits)

lemma save_invariant:
  "cacheInvariant cache \<Longrightarrow> cacheInvariant (snd (saveConversationsToCache client now convs cache))"
  by (auto simp: save_table split: option.splits sum.splits dest: cacheRows_invariant)

lemma cacheWrites_invariant:
  "cacheInvariant cache \<Longrightarrow> cacheInvariant (cacheWrites calls cache)"
  by (induction calls cache rule: cacheWrites.induct) (simp_all add: save_invariant)

lemma save_untouched:
  "\<forall>c \<in> set cs. remoteJid c = jid \<longrightarrow> \<not> hasTranscript c \<Longrightarrow>
   snd (saveConversationsToCache client now (Some cs) cache) jid = cache jid"
  by (auto simp: save_table split: sum.splits dest: cacheRows_untouched)

lemma overwrite_same_keys: "dom m = dom m' \<Longrightarrow> (cache ++ m) ++ m' = cache ++ m'"
proof (rule ext)
  fix x
  assume d: "dom m = dom m'"
  show "((cache ++ m) ++ m') x = (cache ++ m') x"
  proof (cases "m' x")
    case None
    then have "m x = None" using d by (metis domIff)
    with None show ?thesis by (simp add: map_add_def)
  next
    case (Some y)
    then show ?thesis by (simp add: map_add_def)
  qed
qed

lemma save_idempotent:
  "snd (saveConversationsToCache client now' convs
          (snd (saveConversationsToCache client now convs cache)))
     = snd (saveConversationsToCache client now' convs cache)"
proof (cases convs)
  case None
  then show ?thesis by (simp add: save_table)
next
  case (Some cs)
  show ?thesis
  proof (cases "cs \<noteq> [] \<and> connect_error client = None \<and> query_error client BEGIN = None
            \<and> query_error client COMMIT = None")
    case False
    then show ?thesis using Some by (auto simp: save_table)
  next
    case True
    have rel: "rel_sum (=) (\<lambda>m m'. dom m = dom m')
       (cacheRows client now cs Map.empty) (cacheRows client now' cs Map.empty)"
      by (rule cacheRows_same_keys)
    show ?thesis
    proof (cases "cacheRows client now cs Map.empty")
      case (Inl e)
      then have "cacheRows client now cs cache = Inl e"
        by (subst cacheRows_closed) simp
      then show ?thesis using Some True by (simp add: save_table)
    next
      case (Inr m)
      with rel obtain m' where m': "cacheRows client now' cs Map.empty = Inr m'" "dom m = dom m'"
        by (cases "cacheRows client now' cs Map.empty") auto
      have first: "cacheRows client now cs cache = Inr (cache ++ m)"
        by (subst cacheRows_closed) (simp add: Inr)
      have second: "cacheRows client now' cs (cache ++ m) = Inr ((cache ++ m) ++ m')"
        by (subst cacheRows_closed) (simp add: m')
      have direct: "cacheRows client now' cs cache = Inr (cache ++ m')"
        by (subst cacheRows_closed) (simp add: m')
      show ?thesis
        using Some True by (simp add: save_table first second direct overwrite_same_keys [OF m'(2)])
    qed
  qed
qed


lemma cacheUpserts_Nil: "cacheUpserts now [] = []"
  by (simp add: cacheUpserts_def)

lemma cacheUpserts_append:
  "cacheUpserts now (xs @ ys) = cacheUpserts now xs @ cacheUpserts now ys"
  by (simp add: cacheUpserts_def)

lemma cacheUpserts_Cons:
  "cacheUpserts now (conv # rest) =
    (case conversation conv of
       None \<Rightarrow> cacheUpserts now rest
     | Some t \<Rightarrow>
         if t \<noteq> [] \<and> trim t \<noteq> []
         then (remoteJid conv, cacheParams conv t,
               cacheParams conv t @ [(''processed_at'', JDate now), (''UPDATED_AT'', JDate now)])
              # cacheUpserts now rest
         else cacheUpserts now rest)"
  by (simp add: cacheUpserts_def split: option.splits)

lemma writtenRows_Nil: "writtenRows now [] = Map.empty"
  by (simp add: writtenRows_def cacheUpserts_Nil)

lemma writtenRows_append:
  "writtenRows now (xs @ ys) = writtenRows now xs ++ writtenRows now ys"
  by (simp add: writtenRows_def cacheUpserts_append)

lemma writtenRows_single:
  "writtenRows now [conv] =
    (case conversation conv of
       None \<Rightarrow> Map.empty
     | Some t \<Rightarrow>
         if t \<noteq> [] \<and> trim t \<noteq> []
         then [remoteJid conv \<mapsto> cacheParams conv t
                 @ [(''processed_at'', JDate now), (''UPDATED_AT'', JDate now)]]
         else Map.empty)"
  by (simp add: writtenRows_def cacheUpserts_Cons cacheUpserts_Nil split: option.splits)

lemma writtenRows_Cons:
  "writtenRows now (conv # rest) = writtenRows now [conv] ++ writtenRows now rest"
  using writtenRows_append [of now "[conv]" rest] by simp

lemma cacheRows_accepted:
  "list_all (\<lambda>(jid, params, row). query_error client (INSERT_CACHE params) = None)
     (cacheUpserts now convs) \<Longrightarrow>
   cacheRows client now convs tbl = Inr (tbl ++ writtenRows now convs)"
proof (induction convs arbitrary: tbl)
  case Nil
  then show ?case by (simp add: writtenRows_Nil)
next
  case (Cons conv rest)
  show ?case
  proof (cases "hasTranscript conv")
    case False
    then have skip: "cacheRows client now (conv # rest) tbl = cacheRows client now rest tbl"
      and none: "writtenRows now [conv] = Map.empty"
      and same: "cacheUpserts now (conv # rest) = cacheUpserts now rest"
      by (auto simp: hasTranscript_def writtenRows_single cacheUpserts_Cons split: option.splits)
    from Cons.IH [of tbl] Cons.prems show ?thesis
      unfolding skip same by (subst writtenRows_Cons) (simp add: none)
  next
    case True
    then obtain t where t: "conversation conv = Some t" "t \<noteq> []" "trim t \<noteq> []"
      by (auto simp: hasTranscript_def split: option.splits)
    define row where
      "row = cacheParams conv t @ [(''processed_at'', JDate now), (''UPDATED_AT'', JDate now)]"
    have ups: "cacheUpserts now (conv # rest)
        = (remoteJid conv, cacheParams conv t, row) # cacheUpserts now rest"
      using t by (simp add: cacheUpserts_Cons row_def)
    have ok: "query_error client (INSERT_CACHE (cacheParams conv t)) = None"
      and rest: "list_all (\<lambda>(jid, params, row). query_error client (INSERT_CACHE params) = None)
         (cacheUpserts now rest)"
      using Cons.prems unfolding ups by simp_all
    have step: "cacheRows client now (conv # rest) tbl
        = cacheRows client now rest (tbl(remoteJid conv \<mapsto> row))"
      using t ok by (simp add: Let_def upsertCache_def row_def)
    have single: "writtenRows now [conv] = [remoteJid conv \<mapsto> row]"
      using t by (simp add: writtenRows_single row_def)
    have join: "tbl ++ ([remoteJid conv \<mapsto> row] ++ m) = tbl(remoteJid conv \<mapsto> row) ++ m" for m
      by (simp add: map_add_assoc [symmetric])
    show ?thesis
      unfolding step Cons.IH [OF rest]
      by (subst writtenRows_Cons) (simp add: single join)
  qed
qed

lemma cacheRows_rejected:
  "\<not> list_all (\<lambda>(jid, params, row). query_error client (INSERT_CACHE params) = None)
     (cacheUpserts now convs) \<Longrightarrow>
   \<exists>e. cacheRows client now convs tbl = Inl e"
proof (induction convs arbitrary: tbl)
  case Nil
  then show ?case by (simp add: cacheUpserts_Nil)
next
  case (Cons conv rest)
  show ?case
  proof (cases "hasTranscript conv")
    case False
    then have skip: "cacheRows client now (conv # rest) tbl = cacheRows client now rest tbl"
      and same: "cacheUpserts now (conv # rest) = cacheUpserts now rest"
      by (auto simp: hasTranscript_def cacheUpserts_Cons split: option.splits)
    from Cons.IH [of tbl] Cons.prems show ?thesis
      unfolding skip same by simp
  next
    case True
    then obtain t where t: "conversation conv = Some t" "t \<noteq> []" "trim t \<noteq> []"
      by (auto simp: hasTranscript_def split: option.splits)
    define row where
      "row = cacheParams conv t @ [(''processed_at'', JDate now), (''UPDATED_AT'', JDate now)]"
    have ups: "cacheUpserts now (conv # rest)
        = (remoteJid conv, cacheParams conv t, row) # cacheUpserts now rest"
      using t by (simp add: cacheUpserts_Cons row_def)
    show ?thesis
    proof (cases "query_error client (INSERT_CACHE (cacheParams conv t))")
      case (Some e)
      then show ?thesis using t by (simp add: Let_def)
    next
      case None
      then have rest: "\<not> list_all
          (\<lambda>(jid, params, row). query_error client (INSERT_CACHE params) = None)
          (cacheUpserts now rest)"
        using Cons.prems unfolding ups by simp
      have step: "cacheRows client now (conv # rest) tbl
          = cacheRows client now rest (tbl(remoteJid conv \<mapsto> row))"
        using t None by (simp add: Let_def upsertCache_def row_def)
      show ?thesis unfolding step by (rule Cons.IH [OF rest])
    qed
  qed
qed


lemma save_exact:
  "saveConversationsToCache client now (Some cs) cache =
    (if cs = [] \<or> letsThrough client now cs then (Inr (), cache ++ writtenRows now cs)
     else case connect_error client of
            Some e \<Rightarrow> (Inl e, cache)
          | None \<Rightarrow>
              (case query_error client ROLLBACK of
                 Some e \<Rightarrow> (Inl e, cache)
               | None \<Rightarrow> (Inr (), cache)))"
proof (cases "cs = []")
  case True
  then show ?thesis by (simp add: saveConversationsToCache_def writtenRows_Nil)
next
  case False
  show ?thesis
  proof (cases "list_all (\<lambda>(jid, params, row). query_error client (INSERT_CACHE params) = None)
     (cacheUpserts now cs)")
    case True
    from cacheRows_accepted [OF this, of cache] False True show ?thesis
      by (simp add: saveConversationsToCache_def saveToCacheTry_def letsThrough_def
          split: option.splits)
  next
    case rej: False
    from cacheRows_rejected [OF this, of cache]
    obtain e where "cacheRows client now cs cache = Inl e" by blast
    with False rej show ?thesis
      by (simp add: saveConversationsToCache_def saveToCacheTry_def letsThrough_def
          split: option.splits)
  qed
qed


lemma upsert_keys:
  "fst ` set (map (\<lambda>(jid, params, row). (jid, row)) (cacheUpserts now cs))
     = remoteJid ` {c \<in> set cs. hasTranscript c}"
proof (induction cs)
  case Nil
  then show ?case by (simp add: cacheUpserts_Nil)
next
  case (Cons conv rest)
  then show ?case
    by (auto simp: cacheUpserts_Cons hasTranscript_def split: option.splits)
qed

lemma writtenRows_absent:
  "\<forall>c \<in> set cs. remoteJid c = jid \<longrightarrow> \<not> hasTranscript c \<Longrightarrow> writtenRows now cs jid = None"
proof -
  assume a: "\<forall>c \<in> set cs. remoteJid c = jid \<longrightarrow> \<not> hasTranscript c"
  have "jid \<notin> fst ` set (map (\<lambda>(jid, params, row). (jid, row)) (cacheUpserts now cs))"
    using a unfolding upsert_keys by auto
  then show ?thesis
    by (simp add: writtenRows_def map_of_eq_None_iff)
qed

lemma writtenRows_last:
  assumes "conversation conv = Some t" "hasTranscript conv"
    "\<forall>c \<in> set after. remoteJid c = remoteJid conv \<longrightarrow> \<not> hasTranscript c"
  shows "writtenRows now (before @ conv # after) (remoteJid conv)
     = Some (cacheParams conv t @ [(''processed_at'', JDate now), (''UPDATED_AT'', JDate now)])"
proof -
  have t: "t \<noteq> [] \<and> trim t \<noteq> []"
    using assms(1,2) by (simp add: hasTranscript_def)
  have split: "writtenRows now (before @ conv # after)
      = writtenRows now before ++ (writtenRows now [conv] ++ writtenRows now after)"
    by (simp add: writtenRows_append writtenRows_Cons [of now conv after])
  show ?thesis
    unfolding split
    using writtenRows_absent [OF assms(3), of now] assms(1) t
    by (simp add: map_add_def writtenRows_single)
qed


text \<open>
  Claim C7.  Starting from the empty table, after any sequence of calls of
  \<open>saveConversationsToCache\<close>, whatever the store does in each, every row of the cache
  has a transcript that is a non-blank string; each single call preserves this.  An entry
  whose transcript is absent, empty or blank is dropped, not written: a call in which
  every entry for an identifier is blank leaves that identifier as it was.  The write is
  an idempotent upsert by identifier: writing the same entries a second time gives the
  table that writing them once at the later time gives.  When the store lets the call
  through, the call resolves and the table afterwards is the table before overwritten
  with the rows of the call, one for each identifier that has an entry with a transcript:
  such an entry is stored under its identifier with all its columns, unless a later
  entry of the call with a transcript has the same identifier.  When the store does not
  let the call through, the table is left as it was.
\<close>

theorem cache_never_holds_a_blank_transcript:
  "cacheInvariant (cacheWrites calls Map.empty)
   \<and> (cacheInvariant cache \<longrightarrow>
        cacheInvariant (snd (saveConversationsToCache client now convs cache)))
   \<and> ((\<forall>c \<in> set cs. remoteJid c = jid \<longrightarrow> \<not> hasTranscript c) \<longrightarrow>
        snd (saveConversationsToCache client now (Some cs) cache) jid = cache jid)
   \<and> snd (saveConversationsToCache client now' convs
          (snd (saveConversationsToCache client now convs cache)))
       = snd (saveConversationsToCache client now' convs cache)
   \<and> (letsThrough client now cs \<longrightarrow>
        saveConversationsToCache client now (Some cs) cache
          = (Inr (), cache ++ writtenRows now cs))
   \<and> (\<not> letsThrough client now cs \<longrightarrow>
        snd (saveConversationsToCache client now (Some cs) cache) = cache)
   \<and> (letsThrough client now (before @ conv # after) \<and> conversation conv = Some t
        \<and> hasTranscript conv
        \<and> (\<forall>c \<in> set after. remoteJid c = remoteJid conv \<longrightarrow> \<not> hasTranscript c) \<longrightarrow>
        snd (saveConversationsToCache client now (Some (before @ conv # after)) cache)
            (remoteJid conv)
          = Some (cacheParams conv t
                    @ [(''processed_at'', JDate now), (''UPDATED_AT'', JDate now)]))"
proof (intro conjI impI)
  have "cacheInvariant Map.empty" by (simp add: cacheInvariant_def)
  then show "cacheInvariant (cacheWrites calls Map.empty)" by (rule cacheWrites_invariant)
next
  assume "cacheInvariant cache"
  then show "cacheInvariant (snd (saveConversationsToCache client now convs cache))"
    by (rule save_invariant)
next
  assume "\<forall>c \<in> set cs. remoteJid c = jid \<longrightarrow> \<not> hasTranscript c"
  then show "snd (saveConversationsToCache client now (Some cs) cache) jid = cache jid"
    by (rule save_untouched)
next
  show "snd (saveConversationsToCache client now' convs
          (snd (saveConversationsToCache client now convs cache)))
       = snd (saveConversationsToCache client now' convs cache)"
    by (rule save_idempotent)
next
  assume "letsThrough client now cs"
  then show "saveConversationsToCache client now (Some cs) cache
          = (Inr (), cache ++ writtenRows now cs)"
    by (simp add: save_exact)
next
  assume "\<not> letsThrough client now cs"
  then show "snd (saveConversationsToCache client now (Some cs) cache) = cache"
    by (simp add: save_exact writtenRows_Nil split: option.splits)
next
  assume a: "letsThrough client now (before @ conv # after) \<and> conversation conv = Some t
        \<and> hasTranscript conv
        \<and> (\<forall>c \<in> set after. remoteJid c = remoteJid conv \<longrightarrow> \<not> hasTranscript c)"
  then have "writtenRows now (before @ conv # after) (remoteJid conv)
     = Some (cacheParams conv t @ [(''processed_at'', JDate now), (''UPDATED_AT'', JDate now)])"
    by (intro writtenRows_last) simp_all
  with a show "snd (saveConversationsToCache client now (Some (before @ conv # after)) cache)
            (remoteJid conv)
          = Some (cacheParams conv t
                    @ [(''processed_at'', JDate now), (''UPDATED_AT'', JDate now)])"
    by (simp add: save_exact map_add_def)
qed

lemma blankItem_facts: "\<not> hasTranscript blankItem" "remoteJid blankItem = ''c2''"
  by (simp_all add: blankItem_def hasTranscript_def trim_def isWhiteSpace_def)

lemma helloItem_transcript: "hasTranscript helloItem" "remoteJid helloItem = ''c1''"
  "conversation helloItem = Some ''hi''"
  by (simp_all add: helloItem_def hasTranscript_def trim_def isWhiteSpace_def)

lemma workingStore_letsThrough: "letsThrough workingStore now cs"
  by (auto simp: letsThrough_def workingStore_def list_all_iff)

text \<open>
  One call on the empty table with a conversation 'hi' for c1 and a blank one for c2.
  On a store that accepts everything the row of c1 is written with all its columns and
  c2 stays absent; on a store that hands out no client nothing is written.
\<close>

theorem cache_witness:
  "letsThrough workingStore 5 [helloItem, blankItem]
   \<and> fst (saveConversationsToCache workingStore 5 (Some [helloItem, blankItem]) Map.empty)
       = Inr ()
   \<and> snd (saveConversationsToCache workingStore 5 (Some [helloItem, blankItem]) Map.empty) ''c2''
       = None
   \<and> snd (saveConversationsToCache workingStore 5 (Some [helloItem, blankItem]) Map.empty) ''c1''
       = Some (cacheParams helloItem ''hi''
                @ [(''processed_at'', JDate 5), (''UPDATED_AT'', JDate 5)])
   \<and> nonBlankText
        (get (cacheParams helloItem ''hi'' @ [(''processed_at'', JDate 5), (''UPDATED_AT'', JDate 5)])
           ''conversation_text'')
   \<and> \<not> letsThrough noClientStore 5 [helloItem, blankItem]
   \<and> snd (saveConversationsToCache noClientStore 5 (Some [helloItem, blankItem]) Map.empty)
       = Map.empty"
proof -
  have e: "cacheInvariant Map.empty" by (simp add: cacheInvariant_def)
  have b: "\<forall>c \<in> set [helloItem, blankItem]. remoteJid c = ''c2'' \<longrightarrow> \<not> hasTranscript c"
    by (simp add: blankItem_facts helloItem_transcript)
  have through: "letsThrough workingStore 5 [helloItem, blankItem]"
    by (rule workingStore_letsThrough)
  have blocked: "\<not> letsThrough noClientStore 5 [helloItem, blankItem]"
    by (simp add: letsThrough_def noClientStore_def)
  have last: "letsThrough workingStore 5 ([] @ helloItem # [blankItem])
      \<and> conversation helloItem = Some ''hi'' \<and> hasTranscript helloItem
      \<and> (\<forall>c \<in> set [blankItem]. remoteJid c = remoteJid helloItem \<longrightarrow> \<not> hasTranscript c)"
    using through by (simp add: helloItem_transcript blankItem_facts)
  note inst = cache_never_holds_a_blank_transcript [of "[]" Map.empty workingStore 5
        "Some [helloItem, blankItem]" "[helloItem, blankItem]" "''c2''" 5 "[]" helloItem
        "[blankItem]" "''hi''"]
  note inst' = cache_never_holds_a_blank_transcript [of "[]" Map.empty noClientStore 5
        "Some [helloItem, blankItem]" "[helloItem, blankItem]" "''c2''" 5 "[]" helloItem
        "[blankItem]" "''hi''"]
  note written = inst [THEN conjunct2, THEN conjunct2, THEN conjunct2, THEN conjunct2,
      THEN conjunct2, THEN conjunct2, rule_format, OF last]
  then have row:
    "snd (saveConversationsToCache workingStore 5 (Some [helloItem, blankItem]) Map.empty) ''c1''
       = Some (cacheParams helloItem ''hi''
                @ [(''processed_at'', JDate 5), (''UPDATED_AT'', JDate 5)])"
    by (simp add: helloItem_transcript)
  note call = inst [THEN conjunct2, THEN conjunct2, THEN conjunct2, THEN conjunct2,
      THEN conjunct1, rule_format, OF through]
  then have resolves:
    "fst (saveConversationsToCache workingStore 5 (Some [helloItem, blankItem]) Map.empty) = Inr ()"
    by simp
  from inst e have "cacheInvariant
      (snd (saveConversationsToCache workingStore 5 (Some [helloItem, blankItem]) Map.empty))"
    by blast
  with row have sound: "nonBlankText
        (get (cacheParams helloItem ''hi'' @ [(''processed_at'', JDate 5), (''UPDATED_AT'', JDate 5)])
           ''conversation_text'')"
    unfolding cacheInvariant_def by blast
  from inst b have absent: "snd (saveConversationsToCache workingStore 5
      (Some [helloItem, blankItem]) Map.empty) ''c2'' = Map.empty ''c2''"
    by blast
  from inst' blocked have unchanged:
    "snd (saveConversationsToCache noClientStore 5 (Some [helloItem, blankItem]) Map.empty)
       = Map.empty"
    by blast
  show ?thesis
    using through resolves absent row sound blocked unchanged by simp
qed


subsection \<open>Batches: one result per item, failures captured per item\<close>

lemma trySave_fields:
  "results (trySave cb ev payload st) = results st"
  "accumulatedForSave (trySave cb ev payload st) = accumulatedForSave st"
  "batchNumber (trySave cb ev payload st) = batchNumber st"
  "requests (trySave cb ev payload st) = requests st"
  by (simp_all add: trySave_def split: prod.splits sum.splits)

lemma checkpoint_fields:
  "results (checkpoint cb st) = results st"
  "batchNumber (checkpoint cb st) = batchNumber st"
  "requests (checkpoint cb st) = requests st"
  by (simp_all add: checkpoint_def Let_def trySave_fields split: option.splits)

lemma analyzeStep_fields:
  "results (analyzeStep m svc cb data W i st)
     = results st @ map (\<lambda>d. fst (analyzeItem m svc d)) (take W (drop i data))"
  "requests (analyzeStep m svc cb data W i st)
     = requests st @ concat (map (\<lambda>d. snd (analyzeItem m svc d)) (take W (drop i data)))"
  "batchNumber (analyzeStep m svc cb data W i st) = batchNumber st + 1"
  by (simp_all add: analyzeStep_def Let_def checkpoint_fields comp_def)

lemma analyzeLoop_rule:
  assumes W: "0 < W"
    and step: "\<And>i st. i < length data \<Longrightarrow> I i st \<Longrightarrow> I (i + W) (analyzeStep m svc cb data W i st)"
  shows "I i st \<Longrightarrow> \<exists>st' j. analyzeLoop m svc cb data W i st = Some st' \<and> I j st' \<and> length data \<le> j"
proof (induction "length data - i" arbitrary: i st rule: less_induct)
  case less
  show ?case
  proof (cases "i < length data")
    case True
    have "length data - (i + W) < length data - i" using True W by arith
    from less.hyps [OF this step [OF True less.prems]]
    show ?thesis using True by (subst analyzeLoop.simps) simp
  next
    case False
    then show ?thesis using less.prems
      by (subst analyzeLoop.simps) (auto intro: exI [of _ i])
  qed
qed

lemma analyzeLoop_results:
  fixes st :: "'s batch_state"
  assumes W: "0 < W"
  shows "\<exists>st'. analyzeLoop m svc cb data W 0 st = Some st'
     \<and> results st' = results st @ map (\<lambda>d. fst (analyzeItem m svc d)) data
     \<and> requests st' = requests st @ concat (map (\<lambda>d. snd (analyzeItem m svc d)) data)"
proof -
  let ?I = "\<lambda>i (s :: 's batch_state). results s = results st @ map (\<lambda>d. fst (analyzeItem m svc d)) (take i data)
     \<and> requests s = requests st @ concat (map (\<lambda>d. snd (analyzeItem m svc d)) (take i data))"
  have "\<exists>st' j. analyzeLoop m svc cb data W 0 st = Some st' \<and> ?I j st' \<and> length data \<le> j"
  proof (rule analyzeLoop_rule [OF W, where I = ?I])
    show "?I 0 st" by simp
  next
    fix i s
    assume "i < length data" "?I i s"
    then show "?I (i + W) (analyzeStep m svc cb data W i s)"
      by (simp add: analyzeStep_fields take_add)
  qed
  then show ?thesis by auto
qed




lemma analyze_never_rejects:
  "\<exists>r sent. analyzeSalesConversation m svc c jid = (Inr r, sent)"
  by (simp add: analyzeSalesConversation_def Let_def split: option.splits sum.splits)


lemma finalSave_fields:
  "results (finalSave cb st) = results st"
  "requests (finalSave cb st) = requests st"
  by (simp_all add: finalSave_def Let_def trySave_fields split: option.splits)

lemma analyzeConversationsBatch_results:
  assumes W: "0 < W"
  shows "\<exists>st. analyzeConversationsBatch m svc data W cb s0 = Some st
     \<and> results st = map (\<lambda>d. fst (analyzeItem m svc d)) data
     \<and> requests st = concat (map (\<lambda>d. snd (analyzeItem m svc d)) data)"
proof -
  from analyzeLoop_results [OF W, of m svc cb data "startState s0"]
  obtain st' where "analyzeLoop m svc cb data W 0 (startState s0) = Some st'"
    "results st' = map (\<lambda>d. fst (analyzeItem m svc d)) data"
    "requests st' = concat (map (\<lambda>d. snd (analyzeItem m svc d)) data)"
    by (auto simp: startState_def)
  then show ?thesis
    by (simp add: analyzeConversationsBatch_def startState_def finalSave_fields)
qed













subsection \<open>Quota failures in the statistics of a run\<close>

lemma empty_has_no_flags:
  "get (getEmptyAnalysis jid) ''errorCode'' = JUndefined"
  "get (getEmptyAnalysis jid) ''analysisSuccess'' = JUndefined"
  by (simp_all add: getEmptyAnalysis_def get_def)

lemma analysisSuccess_item:
  "analysisSuccess (fst (analyzeItem m svc d)) = (\<not> hasError d \<and> hasMessages d)"
proof (cases "hasError d \<or> \<not> hasMessages d")
  case True
  then show ?thesis
    by (auto simp: analyzeItem_def analysisSuccess_def get_spread empty_has_no_flags)
next
  case False
  obtain r sent where
    "analyzeSalesConversation m svc (conversation d) (remoteJid d) = (Inr r, sent)"
    using analyze_never_rejects by blast
  with False show ?thesis
    by (simp add: analyzeItem_def analysisSuccess_def get_spread)
qed

lemma failed_request_item:
  assumes "\<not> hasError d" "hasMessages d" "conversation d = Some t" "trim t \<noteq> []"
    "outcome (svc (buildAnalysisPrompt t)) = Inl e"
  shows "get (fst (analyzeItem m svc d)) ''errorCode'' = JUndefined"
    and "get (fst (analyzeItem m svc d)) ''error'' = JStr (message e)"
    and "get (fst (analyzeItem m svc d)) ''aiModelUsed'' = JStr ''error''"
proof -
  have "t \<noteq> []" using assms(4) by (auto simp: trim_def)
  then show "get (fst (analyzeItem m svc d)) ''errorCode'' = JUndefined"
    and "get (fst (analyzeItem m svc d)) ''error'' = JStr (message e)"
    and "get (fst (analyzeItem m svc d)) ''aiModelUsed'' = JStr ''error''"
    using assms
    by (simp_all add: analyzeItem_def analyzeSalesConversation_def Let_def get_spread
        empty_has_no_flags)
qed

lemma helloItem_facts:
  "\<not> hasError helloItem" "hasMessages helloItem" "conversation helloItem = Some ''hi''"
  "trim ''hi'' \<noteq> []"
  by (simp_all add: helloItem_def hasError_def trim_def isWhiteSpace_def)

text \<open>
  Claim C3 fails on the code by a defect.  One conversation whose classifier request is
  rejected with the code 'insufficient_quota': \<open>analyzeSalesConversation\<close> catches the
  error itself and resolves, so the \<open>catch\<close> of \<open>analyzeConversationsBatch\<close> that would
  set \<open>errorCode\<close> is never entered.  The result has no \<open>errorCode\<close> and has
  \<open>analysisSuccess = true\<close>: the run counts 0 quota failures and 1 successful analysis.
\<close>

theorem quota_failure_is_counted_as_success:
  "map_option
     (\<lambda>st. (length (results st), length (quotaFailures (results st)),
            length (successfulAnalyses (results st)),
            map (\<lambda>r. get r ''errorCode'') (results st),
            map (\<lambda>r. get r ''error'') (results st),
            map (\<lambda>r. get r ''aiModelUsed'') (results st)))
     (analyzeConversationsBatch None quotaService [helloItem] 5
        (None :: (unit, unit) save_callback option) ())
   = Some (1, 0, 1, [JUndefined], [JStr ''You exceeded your current quota''], [JStr ''error''])"
proof -
  have out: "outcome (quotaService (buildAnalysisPrompt ''hi'')) = Inl quotaError"
    by (simp add: quotaService_def)
  note item = failed_request_item [where svc = quotaService and d = helloItem and t = "''hi''"
      and e = quotaError and m = None, OF helloItem_facts out]
  have ok: "analysisSuccess (fst (analyzeItem None quotaService helloItem))"
    by (simp add: analysisSuccess_item helloItem_facts)
  obtain st where st:
    "analyzeConversationsBatch None quotaService [helloItem] 5
        (None :: (unit, unit) save_callback option) () = Some st"
    "results st = [fst (analyzeItem None quotaService helloItem)]"
    using analyzeConversationsBatch_results [of 5 None quotaService "[helloItem]"
        "None :: (unit, unit) save_callback option" "()"]
    by auto
  show ?thesis
    by (simp add: st quotaFailures_def successfulAnalyses_def item ok quotaError_def)
qed


subsection \<open>Checkpoints of the analysis run\<close>




lemma checkpoint_console_unchanged:
  "console (checkpoint None st) = console st"
  by (simp add: checkpoint_def)




























end
